theory Spec2Isabelle
  imports Main "HOL-Library.Sublist" "HOL-Library.Multiset"
    "HOL-Library.Char_ord" "HOL-Library.List_Lexorder"
begin

section \<open>Python strings, lists and dictionaries\<close>

text \<open>
  A Python \<open>str\<close> is a \<open>string\<close> (a list of characters). Exceptions are values of
  the type \<open>error\<close>; a function that may raise returns \<open>error + 'a\<close>.
\<close>

datatype error = ValueError | AssertionError | UnboundLocalError | IndexError | KeyError

text \<open>
  \<open>s.split(sep)\<close> for a separator of one character, which is what every call in
  \<open>images.py\<close> passes (\<open>'.'\<close> and \<open>"\n"\<close>): the pieces between the separators, the
  empty pieces included; the result is never empty.
\<close>

fun str_split :: "char \<Rightarrow> string \<Rightarrow> string list" where
  "str_split sep [] = [[]]"
| "str_split sep (c # cs) =
     (if c = sep then [] # str_split sep cs
      else (case str_split sep cs of
              [] \<Rightarrow> [[c]]
            | w # ws \<Rightarrow> (c # w) # ws))"

text \<open>
  \<open>s.replace(old, new)\<close>: the occurrences of \<open>old\<close> are found from left to right and do
  not overlap. For an empty \<open>old\<close> Python puts \<open>new\<close> before every character and at the
  end.
\<close>

function str_replace :: "string \<Rightarrow> string \<Rightarrow> string \<Rightarrow> string" where
  "str_replace old new [] = (if old = [] then new else [])"
| "str_replace old new (c # cs) =
     (if old = [] then new @ c # str_replace old new cs
      else if prefix old (c # cs) then new @ str_replace old new (drop (length old) (c # cs))
      else c # str_replace old new cs)"
  by pat_completeness auto
termination
  by (relation "measure (\<lambda>(old, new, s). length s)") auto

text \<open>\<open>sep.join(parts)\<close>.\<close>

fun str_join :: "string \<Rightarrow> string list \<Rightarrow> string" where
  "str_join sep [] = []"
| "str_join sep [p] = p"
| "str_join sep (p # q # ps) = p @ sep @ str_join sep (q # ps)"

text \<open>
  A \<open>dict\<close> keeps its keys in insertion order, so it is an association list without
  repeated keys. \<open>d[k] = v\<close> overwrites the value of a key that is present, in place, and
  appends a new key at the end; a dictionary display \<open>{k1: v1, k2: v2, ...}\<close> stores its
  items from left to right.
\<close>

fun dict_set :: "'k \<Rightarrow> 'v \<Rightarrow> ('k \<times> 'v) list \<Rightarrow> ('k \<times> 'v) list" where
  "dict_set k v [] = [(k, v)]"
| "dict_set k v ((k', v') # kvs) =
     (if k = k' then (k, v) # kvs else (k', v') # dict_set k v kvs)"

definition dict_display :: "('k \<times> 'v) list \<Rightarrow> ('k \<times> 'v) list" where
  "dict_display items = foldl (\<lambda>d (k, v). dict_set k v d) [] items"

section \<open>Variant expansion: \<open>_get_file_color_map\<close>\<close>

text \<open>
  The palette is a class of \<open>qdarkstyle.palette\<close>, which is not part of \<open>images.py\<close>;
  the four class attributes that \<open>_get_file_color_map\<close> reads are the fields of the record.
\<close>

record palette =
  COLOR_BACKGROUND_NORMAL :: string
  COLOR_SELECTION_LIGHT :: string
  COLOR_SELECTION_NORMAL :: string
  COLOR_FOREGROUND_DARK :: string

text \<open>
  The loop \<open>for f, file_colors in files_map.items(): if f == fname: break\<close>. The third
  argument is the binding of \<open>file_colors\<close> so far (\<open>None\<close> while it is unbound); the loop
  leaves the variable bound to the value of the item it stopped at, or of the last item.
\<close>

fun pick_file_colors :: "string \<Rightarrow> (string \<times> 'v) list \<Rightarrow> 'v option \<Rightarrow> 'v option" where
  "pick_file_colors fname [] cur = cur"
| "pick_file_colors fname ((f, file_colors) # items) cur =
     (if f = fname then Some file_colors
      else pick_file_colors fname items (Some file_colors))"

text \<open>
  \<open>name, ext = fname.split('.')\<close> raises \<open>ValueError\<close> unless the split has exactly two
  pieces. \<open>assert file_colors\<close> raises \<open>AssertionError\<close> on an empty dictionary.
\<close>

definition get_file_color_map :: "string \<Rightarrow> palette \<Rightarrow> error + (string \<times> string) list" where
  "get_file_color_map fname pal =
     (let color_disabled = COLOR_BACKGROUND_NORMAL pal;
          color_focus = COLOR_SELECTION_LIGHT pal;
          color_pressed = COLOR_SELECTION_NORMAL pal;
          color_normal = COLOR_FOREGROUND_DARK pal
      in case str_split CHR ''.'' fname of
           [name, ext] \<Rightarrow>
             (let files_map = dict_display
                    [(fname, dict_display
                       [(fname, color_normal),
                        (name @ ''_disabled.'' @ ext, color_disabled),
                        (name @ ''_focus.'' @ ext, color_focus),
                        (name @ ''_pressed.'' @ ext, color_pressed)])]
              in case pick_file_colors fname files_map None of
                   None \<Rightarrow> Inl UnboundLocalError
                 | Some file_colors \<Rightarrow>
                     if file_colors = [] then Inl AssertionError else Inr file_colors)
         | _ \<Rightarrow> Inl ValueError)"

section \<open>Colorization: \<open>_create_colored_svg\<close>\<close>

text \<open>
  \<open>_create_colored_svg(svg_path, temp_svg_path, color)\<close> reads the template, replaces the
  placeholder colour and writes the result. The first argument of the model is the text read
  from \<open>svg_path\<close>, its value the text written to \<open>temp_svg_path\<close>; the caller records
  the write.
\<close>

definition create_colored_svg :: "string \<Rightarrow> string \<Rightarrow> string" where
  "create_colored_svg data color =
     (let base_color = ''#ff0000'';
          new_data = str_replace base_color color data
      in new_data)"

section \<open>Reference extraction: \<open>get_rc_links_from_scss\<close>\<close>

text \<open>
  The regular expressions of Python's \<open>re\<close> that the function is used with: a sequence of
  literal characters and greedy \<open>.*\<close>. \<open>match_here\<close> is a match that starts at the
  beginning of the text: \<open>.*\<close> takes as many characters as it can (never a newline) and
  gives them back one at a time while the rest of the pattern fails. \<open>re_search\<close> is
  \<open>re.search\<close>: the match at the leftmost position that has one. The pattern is compiled
  as \<open>f'({pattern})'\<close>, so that group 1 is the whole match.
\<close>

datatype re_atom = Lit char | AnyStar


fun match_here :: "re_atom list \<Rightarrow> string \<Rightarrow> string option" where
  "match_here [] s = Some []"
| "match_here (Lit c # ps) [] = None"
| "match_here (Lit c # ps) (x # xs) =
     (if x = c then map_option ((#) x) (match_here ps xs) else None)"
| "match_here (AnyStar # ps) [] = match_here ps []"
| "match_here (AnyStar # ps) (x # xs) =
     (if x = CHR ''\<newline>'' then match_here ps (x # xs)
      else (case match_here (AnyStar # ps) xs of
              Some m \<Rightarrow> Some (x # m)
            | None \<Rightarrow> match_here ps (x # xs)))"

fun re_search :: "re_atom list \<Rightarrow> string \<Rightarrow> string option" where
  "re_search ps [] = match_here ps []"
| "re_search ps (x # xs) =
     (case match_here ps (x # xs) of
        Some m \<Rightarrow> Some m
      | None \<Rightarrow> re_search ps xs)"

text \<open>The default pattern \<^verbatim>\<open>\/.*\.png\<close>.\<close>

definition default_pattern :: "re_atom list" where
  "default_pattern = [Lit CHR ''/'', AnyStar, Lit CHR ''.'', Lit CHR ''p'', Lit CHR ''n'', Lit CHR ''g'']"

text \<open>
  The loop \<open>for line in lines\<close> that appends group 1 of the match, when there is one, to
  \<open>rc_list\<close>.
\<close>

fun collect_links :: "re_atom list \<Rightarrow> string list \<Rightarrow> string list \<Rightarrow> string list" where
  "collect_links pattern [] rc_list = rc_list"
| "collect_links pattern (line # lines) rc_list =
     (case re_search pattern line of
        Some m \<Rightarrow> collect_links pattern lines (rc_list @ [m])
      | None \<Rightarrow> collect_links pattern lines rc_list)"

text \<open>
  The second argument is the text of the stylesheet, read from \<open>STYLES_SCSS_FILEPATH\<close>.
  \<open>list(set(rc_list))\<close> drops the duplicates; Python leaves the order of the result
  unspecified, the model keeps the order of \<open>remdups\<close>, and no theorem below depends on it.
\<close>

definition get_rc_links_from_scss :: "re_atom list \<Rightarrow> string \<Rightarrow> string list" where
  "get_rc_links_from_scss pattern data =
     (let lines = str_split CHR ''\<newline>'' data;
          rc_list = collect_links pattern lines []
      in remdups rc_list)"


section \<open>The asset pipeline: \<open>create_images\<close>\<close>

text \<open>\<open>os.path.basename\<close> and \<open>os.path.join\<close> (of two paths) of \<open>posixpath\<close>.\<close>

definition os_path_basename :: "string \<Rightarrow> string" where
  "os_path_basename p = rev (takeWhile (\<lambda>c. c \<noteq> CHR ''/'') (rev p))"

definition os_path_join :: "string \<Rightarrow> string \<Rightarrow> string" where
  "os_path_join a b =
     (if prefix ''/'' b then b
      else if a = [] \<or> suffix ''/'' a then a @ b
      else a @ ''/'' @ b)"

text \<open>\<open>xs.remove(x)\<close> removes the first occurrence and raises \<open>ValueError\<close> when there is none.\<close>

definition list_remove :: "'a \<Rightarrow> 'a list \<Rightarrow> error + 'a list" where
  "list_remove x xs = (if x \<in> set xs then Inr (remove1 x xs) else Inl ValueError)"

text \<open>A \<open>for\<close> loop whose body may raise: the exception ends the loop.\<close>

fun for_each :: "('a \<Rightarrow> 's \<Rightarrow> 'e + 's) \<Rightarrow> 'a list \<Rightarrow> 's \<Rightarrow> 'e + 's" where
  "for_each body [] st = Inr st"
| "for_each body (x # xs) st =
     (case body x st of
        Inl e \<Rightarrow> Inl e
      | Inr st' \<Rightarrow> for_each body xs st')"

definition IMAGE_BLACKLIST :: "string list" where
  "IMAGE_BLACKLIST = [''base_palette'']"

text \<open>
  The effects of a run: the files written to the temporary directory and to \<open>rc_path\<close>
  (path and content, in the order of the writes), the counters that the run logs at its
  end, and the list of links that have not been matched yet. The log lines themselves are
  left out. An exception carries the state it was raised in.
\<close>

record run_state =
  temp_files :: "(string \<times> string) list"
  png_files :: "(string \<times> string) list"
  num_svg :: nat
  num_png :: nat
  num_ignored :: nat
  num_rc_list :: nat
  rc_list :: "string list"

text \<open>
  What a run reads: the renderer (Qt's \<open>QIcon\<close> and \<open>QPixmap\<close>, a function of the SVG
  text and the size), the directory made by \<open>tempfile.mkdtemp\<close>, and the arguments of
  \<open>create_images\<close>.
\<close>

record run_env =
  render :: "string \<Rightarrow> nat \<Rightarrow> nat \<Rightarrow> string"
  temp_dir :: string
  base_svg_path :: string
  rc_path :: string
  palette :: palette

text \<open>
  The body of \<open>for color_svg_name, color in color_files.items()\<close>. \<open>data\<close> is the text
  of the template at \<open>svg_path\<close>. \<open>convert_svg_to_png\<close> renders the temporary file that was
  written just before.
\<close>

definition process_variant ::
  "run_env \<Rightarrow> nat \<Rightarrow> nat \<Rightarrow> string \<Rightarrow> string \<Rightarrow> string \<times> string \<Rightarrow> run_state
     \<Rightarrow> (error \<times> run_state) + run_state" where
  "process_variant env base_height height ext data item st =
     (case item of (color_svg_name, color) \<Rightarrow>
      let width = height;
          temp_svg_path = os_path_join (temp_dir env) color_svg_name;
          new_data = create_colored_svg data color;
          st1 = st\<lparr>temp_files := temp_files st @ [(temp_svg_path, new_data)]\<rparr>;
          png_fname = str_replace ''.svg'' ext color_svg_name;
          png_path = os_path_join (rc_path env) png_fname;
          st2 = st1\<lparr>png_files := png_files st1 @ [(png_path, render env new_data height width)]\<rparr>;
          st3 = st2\<lparr>num_png := num_png st2 + 1\<rparr>
      in if height = base_height then
           (let rc_base = os_path_basename (rc_path env);
                png_base = os_path_basename png_fname;
                rc_name = ''/'' @ os_path_join rc_base png_base
            in case list_remove rc_name (rc_list st3) of
                 Inr l \<Rightarrow> Inr (st3\<lparr>rc_list := l\<rparr>)
               | Inl e \<Rightarrow> if e = ValueError then Inr st3 else Inl (e, st3))
         else Inr st3)"

text \<open>The body of \<open>for svg_fname in svg_fnames\<close>; an entry is a file name and the file's text.\<close>

definition process_template ::
  "run_env \<Rightarrow> nat \<Rightarrow> nat \<Rightarrow> string \<Rightarrow> string \<times> string \<Rightarrow> run_state
     \<Rightarrow> (error \<times> run_state) + run_state" where
  "process_template env base_height height ext entry st =
     (case entry of (svg_fname, data) \<Rightarrow>
      case str_split CHR ''.'' svg_fname of
        [] \<Rightarrow> Inl (IndexError, st)
      | svg_name # _ \<Rightarrow>
          if svg_name \<notin> set IMAGE_BLACKLIST then
            (case get_file_color_map svg_fname (palette env) of
               Inl e \<Rightarrow> Inl (e, st)
             | Inr color_files \<Rightarrow>
                 for_each (process_variant env base_height height ext data) color_files st)
          else Inr (st\<lparr>num_ignored := num_ignored st + 1\<rparr>))"

text \<open>
  \<open>svg_dir\<close> is the content of the directory \<open>base_svg_path\<close> in the order of
  \<open>os.listdir\<close>, \<open>scss\<close> the text of the stylesheet.
\<close>

definition create_images ::
  "run_env \<Rightarrow> (string \<times> string) list \<Rightarrow> string \<Rightarrow> (error \<times> run_state) + run_state" where
  "create_images env svg_dir scss =
     (let svg_fnames = filter (\<lambda>(f, data). suffix ''.svg'' f) svg_dir;
          base_height = 32;
          heights = dict_display [(32, ''.png''), (64, ''@2x.png'')];
          rc_list0 = get_rc_links_from_scss default_pattern scss;
          st0 = \<lparr>temp_files = [], png_files = [], num_svg = length svg_fnames, num_png = 0,
                 num_ignored = 0, num_rc_list = length rc_list0, rc_list = rc_list0\<rparr>
      in for_each
           (\<lambda>(height, ext). for_each (process_template env base_height height ext) svg_fnames)
           heights st0)"


section \<open>The manifest: \<open>generate_qrc_file\<close>\<close>

text \<open>
  \<open>template.format(**kwargs)\<close> for templates whose replacement fields are keyword names,
  as in the three templates below: \<open>{{\<close> and \<open>}}\<close> stand for a brace, \<open>{name}\<close> for the
  value of \<open>name\<close>, which is inserted as it is. The second argument is the field name read
  so far, \<open>None\<close> outside a field.
\<close>

fun str_format :: "(string \<rightharpoonup> string) \<Rightarrow> string option \<Rightarrow> string \<Rightarrow> error + string" where
  "str_format kwargs None [] = Inr []"
| "str_format kwargs (Some name) [] = Inl ValueError"
| "str_format kwargs (Some name) (c # cs) =
     (if c = CHR ''}'' then
        (case kwargs name of
           None \<Rightarrow> Inl KeyError
         | Some v \<Rightarrow> map_sum id ((@) v) (str_format kwargs None cs))
      else str_format kwargs (Some (name @ [c])) cs)"
| "str_format kwargs None [c] =
     (if c = CHR ''{'' \<or> c = CHR ''}'' then Inl ValueError else Inr [c])"
| "str_format kwargs None (c # d # ds) =
     (if c = CHR ''{'' then
        (if d = CHR ''{'' then map_sum id ((#) CHR ''{'') (str_format kwargs None ds)
         else str_format kwargs (Some []) (d # ds))
      else if c = CHR ''}'' then
        (if d = CHR ''}'' then map_sum id ((#) CHR ''}'') (str_format kwargs None ds)
         else Inl ValueError)
      else map_sum id ((#) c) (str_format kwargs None (d # ds)))"

definition TEMPLATE_QRC_HEADER :: string where
  "TEMPLATE_QRC_HEADER =
     ''\<newline><RCC warning='' @ [CHR 0x22] @
     ''File created programmatically. All changes made in this file will be lost!'' @
     [CHR 0x22] @ ''>\<newline>  <qresource prefix='' @ [CHR 0x22] @ ''{resource_prefix}'' @
     [CHR 0x22] @ ''>\<newline>''"

definition TEMPLATE_QRC_FILE :: string where
  "TEMPLATE_QRC_FILE = ''    <file>rc/{fname}</file>''"

definition TEMPLATE_QRC_FOOTER :: string where
  "TEMPLATE_QRC_FOOTER =
     ''\<newline>  </qresource>\<newline>  <qresource prefix='' @ [CHR 0x22] @ ''{style_prefix}'' @
     [CHR 0x22] @ ''>\<newline>      <file>style.qss</file>\<newline>  </qresource>\<newline></RCC>\<newline>''"

text \<open>The comprehension \<open>[TEMPLATE_QRC_FILE.format(fname=fname) for fname in ...]\<close>.\<close>

fun format_files :: "string list \<Rightarrow> error + string list" where
  "format_files [] = Inr []"
| "format_files (fname # fnames) =
     (case str_format [''fname'' \<mapsto> fname] None TEMPLATE_QRC_FILE of
        Inl e \<Rightarrow> Inl e
      | Inr line \<Rightarrow>
          (case format_files fnames of
             Inl e \<Rightarrow> Inl e
           | Inr lines \<Rightarrow> Inr (line # lines)))"

text \<open>
  \<open>rc_dir\<close> is the content of \<open>RC_PATH\<close> as \<open>os.listdir\<close> returns it; the value is the
  text written to \<open>QRC_FILEPATH\<close>.
\<close>

definition generate_qrc_file :: "string list \<Rightarrow> string \<Rightarrow> string \<Rightarrow> error + string" where
  "generate_qrc_file rc_dir resource_prefix style_prefix =
     (case format_files (sort rc_dir) of
        Inl e \<Rightarrow> Inl e
      | Inr files \<Rightarrow>
          (case str_format [''resource_prefix'' \<mapsto> resource_prefix] None TEMPLATE_QRC_HEADER of
             Inl e \<Rightarrow> Inl e
           | Inr header \<Rightarrow>
               (case str_format [''style_prefix'' \<mapsto> style_prefix] None TEMPLATE_QRC_FOOTER of
                  Inl e \<Rightarrow> Inl e
                | Inr footer \<Rightarrow>
                    Inr (header @ str_join ''\<newline>'' files @ footer))))"


section \<open>Notions used to state what a run does\<close>

text \<open>
  The definitions of this section are not functions of \<open>images.py\<close>: they name parts of
  \<open>create_images\<close> so that the theorems about a run can be stated. A template is
  blacklisted when \<open>svg_fname.split('.')[0]\<close> is in \<open>IMAGE_BLACKLIST\<close>.
\<close>

definition blacklisted :: "string \<Rightarrow> bool" where
  "blacklisted svg_fname = (hd (str_split CHR ''.'' svg_fname) \<in> set IMAGE_BLACKLIST)"

text \<open>The list \<open>svg_fnames\<close>, with the text of each file.\<close>

definition svg_templates :: "(string \<times> string) list \<Rightarrow> (string \<times> string) list" where
  "svg_templates svg_dir = filter (\<lambda>(f, data). suffix ''.svg'' f) svg_dir"

text \<open>The items of \<open>color_files\<close> for a template; none when \<open>_get_file_color_map\<close> raises.\<close>

definition variants_of :: "palette \<Rightarrow> string \<Rightarrow> (string \<times> string) list" where
  "variants_of pal svg_fname =
     (case get_file_color_map svg_fname pal of
        Inl e \<Rightarrow> []
      | Inr color_files \<Rightarrow> color_files)"

text \<open>The value of \<open>rc_name\<close> for a \<open>png_fname\<close>.\<close>

definition rc_name :: "string \<Rightarrow> string \<Rightarrow> string" where
  "rc_name rc_dir png_fname =
     ''/'' @ os_path_join (os_path_basename rc_dir) (os_path_basename png_fname)"

text \<open>
  What one pass over a template, with the size \<open>height\<close> and the suffix \<open>ext\<close>, writes to
  the temporary directory and to \<open>rc_path\<close>, and the values of \<open>png_fname\<close> in it.
\<close>

definition temp_writes :: "run_env \<Rightarrow> string \<times> string \<Rightarrow> (string \<times> string) list" where
  "temp_writes env entry =
     (case entry of (svg_fname, data) \<Rightarrow>
        if blacklisted svg_fname then []
        else map (\<lambda>(color_svg_name, color).
                    (os_path_join (temp_dir env) color_svg_name, create_colored_svg data color))
               (variants_of (palette env) svg_fname))"

definition png_writes :: "run_env \<Rightarrow> nat \<Rightarrow> string \<Rightarrow> string \<times> string \<Rightarrow> (string \<times> string) list" where
  "png_writes env height ext entry =
     (case entry of (svg_fname, data) \<Rightarrow>
        if blacklisted svg_fname then []
        else map (\<lambda>(color_svg_name, color).
                    (os_path_join (rc_path env) (str_replace ''.svg'' ext color_svg_name),
                     render env (create_colored_svg data color) height height))
               (variants_of (palette env) svg_fname))"

definition png_fnames :: "palette \<Rightarrow> string \<Rightarrow> string \<Rightarrow> string list" where
  "png_fnames pal ext svg_fname =
     (if blacklisted svg_fname then []
      else map (\<lambda>(color_svg_name, color). str_replace ''.svg'' ext color_svg_name)
             (variants_of pal svg_fname))"

text \<open>
  A state after more writes, more files made, more templates ignored and the removal of
  more names from \<open>rc_list\<close>.
\<close>

definition advance ::
  "run_state \<Rightarrow> (string \<times> string) list \<Rightarrow> (string \<times> string) list \<Rightarrow> nat \<Rightarrow> nat \<Rightarrow> string list
     \<Rightarrow> run_state" where
  "advance st temps pngs made ignored matched =
     st\<lparr>temp_files := temp_files st @ temps,
        png_files := png_files st @ pngs,
        num_png := num_png st + made,
        num_ignored := num_ignored st + ignored,
        rc_list := foldl (\<lambda>l n. remove1 n l) (rc_list st) matched\<rparr>"

text \<open>
  What the naming scheme can put after the base name of a template, in front of
  \<open>.png\<close>: a state suffix, the marker \<open>@2x\<close> of the double size, or both.
\<close>

definition derived_suffixes :: "string list" where
  "derived_suffixes =
     [''_disabled'', ''_focus'', ''_pressed'', ''@2x'', ''_disabled@2x'', ''_focus@2x'',
      ''_pressed@2x'']"

text \<open>
  An environment for the examples: the renderer returns the SVG text it is given, the
  palette is the one of the specification's end-to-end scenario.
\<close>

definition example_env :: run_env where
  "example_env =
     \<lparr>render = (\<lambda>data height width. data),
      temp_dir = ''/tmp/tmp0'',
      base_svg_path = ''/repo/svg'',
      rc_path = ''/repo/rc'',
      palette = \<lparr>COLOR_BACKGROUND_NORMAL = ''#222222'', COLOR_SELECTION_LIGHT = ''#333333'',
                  COLOR_SELECTION_NORMAL = ''#444444'', COLOR_FOREGROUND_DARK = ''#111111''\<rparr>\<rparr>"


section \<open>Facts about splitting\<close>

lemma str_split_not_Nil: "str_split sep s \<noteq> []"
  by (induction s) (auto split: list.splits)

lemma length_str_split: "length (str_split sep s) = Suc (count_list s sep)"
  by (induction s) (auto split: list.splits simp: str_split_not_Nil)

lemma str_split_no_sep: "sep \<notin> set s \<Longrightarrow> str_split sep s = [s]"
  by (induction s) auto

lemma str_split_append_sep:
  "sep \<notin> set a \<Longrightarrow> str_split sep (a @ sep # b) = a # str_split sep b"
  by (induction a) auto

lemma str_split_decompose:
  "str_split sep s = w # ws \<Longrightarrow> ws \<noteq> [] \<Longrightarrow>
     \<exists>r. s = w @ sep # r \<and> sep \<notin> set w \<and> str_split sep r = ws"
proof (induction s arbitrary: w)
  case Nil
  then show ?case by simp
next
  case (Cons c cs)
  show ?case
  proof (cases "c = sep")
    case True
    with Cons.prems show ?thesis by auto
  next
    case False
    from str_split_not_Nil obtain v vs where v: "str_split sep cs = v # vs"
      by (cases "str_split sep cs") auto
    with False Cons.prems have w: "w = c # v" and vs: "vs = ws" by auto
    from Cons.IH [OF v [unfolded vs] Cons.prems(2)]
    obtain r where "cs = v @ sep # r" "sep \<notin> set v" "str_split sep r = ws" by blast
    with False w show ?thesis by auto
  qed
qed

lemma str_split_single: "str_split sep s = [w] \<Longrightarrow> s = w \<and> sep \<notin> set w"
proof (induction s arbitrary: w)
  case Nil
  then show ?case by simp
next
  case (Cons c cs)
  then show ?case
    by (auto split: if_splits list.splits simp: str_split_not_Nil)
qed

lemma str_split_two:
  "str_split sep s = [a, b] \<longleftrightarrow> s = a @ sep # b \<and> sep \<notin> set a \<and> sep \<notin> set b"
proof
  assume h: "str_split sep s = [a, b]"
  from str_split_decompose [OF h] obtain r
    where r: "s = a @ sep # r" "sep \<notin> set a" "str_split sep r = [b]" by auto
  from str_split_single [OF r(3)] r show "s = a @ sep # b \<and> sep \<notin> set a \<and> sep \<notin> set b"
    by simp
next
  assume "s = a @ sep # b \<and> sep \<notin> set a \<and> sep \<notin> set b"
  then show "str_split sep s = [a, b]"
    by (simp add: str_split_append_sep str_split_no_sep)
qed

lemma one_sep_split:
  assumes "count_list s sep = 1"
  shows "\<exists>a b. str_split sep s = [a, b]"
proof -
  from assms have "length (str_split sep s) = 2" by (simp add: length_str_split)
  then show ?thesis
    by (cases "str_split sep s" rule: list.exhaust; simp)
       (metis length_0_conv length_Suc_conv)
qed

lemma get_file_color_map_split:
  assumes "str_split CHR ''.'' fname = [name, ext]"
  shows "get_file_color_map fname pal =
           Inr [(name @ ''.'' @ ext, COLOR_FOREGROUND_DARK pal),
                (name @ ''_disabled.'' @ ext, COLOR_BACKGROUND_NORMAL pal),
                (name @ ''_focus.'' @ ext, COLOR_SELECTION_LIGHT pal),
                (name @ ''_pressed.'' @ ext, COLOR_SELECTION_NORMAL pal)]"
proof -
  from assms have f: "fname = name @ ''.'' @ ext" by (simp add: str_split_two)
  show ?thesis
    unfolding get_file_color_map_def Let_def assms
    by (simp add: dict_display_def f)
qed

lemma get_file_color_map_error:
  assumes "count_list fname CHR ''.'' \<noteq> 1"
  shows "get_file_color_map fname pal = Inl ValueError"
proof -
  from assms have "length (str_split CHR ''.'' fname) \<noteq> 2" by (simp add: length_str_split)
  then show ?thesis
    unfolding get_file_color_map_def Let_def
    by (auto split: list.splits)
qed

section \<open>The four state variants\<close>

text \<open>
  C1. For a template filename with exactly one \<open>'.'\<close> and any palette, the variant
  expansion returns without raising, and the dictionary it returns has exactly four
  entries, with the keys \<open>{name}.{ext}\<close>, \<open>{name}_disabled.{ext}\<close>, \<open>{name}_focus.{ext}\<close>
  and \<open>{name}_pressed.{ext}\<close>, which are pairwise distinct.
\<close>

theorem get_file_color_map_four_variants:
  assumes "count_list fname CHR ''.'' = 1"
  shows "\<exists>name ext m.
           str_split CHR ''.'' fname = [name, ext] \<and>
           get_file_color_map fname pal = Inr m \<and>
           length m = 4 \<and>
           map fst m = [name @ ''.'' @ ext, name @ ''_disabled.'' @ ext,
                        name @ ''_focus.'' @ ext, name @ ''_pressed.'' @ ext] \<and>
           distinct (map fst m)"
proof -
  from one_sep_split [OF assms] obtain name ext
    where s: "str_split CHR ''.'' fname = [name, ext]" by blast
  show ?thesis
    using s get_file_color_map_split [OF s, of pal] by simp
qed

theorem get_file_color_map_four_variants_witness:
  "count_list ''icon.svg'' CHR ''.'' = 1 \<and>
   (\<exists>m. get_file_color_map ''icon.svg''
           \<lparr>COLOR_BACKGROUND_NORMAL = ''#222222'', COLOR_SELECTION_LIGHT = ''#333333'',
            COLOR_SELECTION_NORMAL = ''#444444'', COLOR_FOREGROUND_DARK = ''#111111''\<rparr> = Inr m \<and>
        map fst m = [''icon.svg'', ''icon_disabled.svg'', ''icon_focus.svg'',
                     ''icon_pressed.svg''])"
proof -
  let ?pal = "\<lparr>COLOR_BACKGROUND_NORMAL = ''#222222'', COLOR_SELECTION_LIGHT = ''#333333'',
               COLOR_SELECTION_NORMAL = ''#444444'', COLOR_FOREGROUND_DARK = ''#111111''\<rparr>"
  have h: "count_list ''icon.svg'' CHR ''.'' = 1" by simp
  from get_file_color_map_four_variants [OF h, of ?pal] obtain name ext m
    where s: "str_split CHR ''.'' ''icon.svg'' = [name, ext]"
      and m: "get_file_color_map ''icon.svg'' ?pal = Inr m"
      and k: "map fst m = [name @ ''.'' @ ext, name @ ''_disabled.'' @ ext,
                           name @ ''_focus.'' @ ext, name @ ''_pressed.'' @ ext]"
    by (elim exE conjE) (rule that)
  from s have "name = ''icon''" "ext = ''svg''" by simp_all
  with h m k show ?thesis by simp
qed

text \<open>
  C10. The state-to-palette assignment: the base variant is coloured with
  \<open>COLOR_FOREGROUND_DARK\<close>, the \<open>_disabled\<close> variant with \<open>COLOR_BACKGROUND_NORMAL\<close>, the
  \<open>_focus\<close> variant with \<open>COLOR_SELECTION_LIGHT\<close> and the \<open>_pressed\<close> variant with
  \<open>COLOR_SELECTION_NORMAL\<close>.
\<close>

theorem get_file_color_map_palette_fields:
  assumes "count_list fname CHR ''.'' = 1"
  shows "\<exists>name ext m.
           str_split CHR ''.'' fname = [name, ext] \<and>
           get_file_color_map fname pal = Inr m \<and>
           map_of m (name @ ''.'' @ ext) = Some (COLOR_FOREGROUND_DARK pal) \<and>
           map_of m (name @ ''_disabled.'' @ ext) = Some (COLOR_BACKGROUND_NORMAL pal) \<and>
           map_of m (name @ ''_focus.'' @ ext) = Some (COLOR_SELECTION_LIGHT pal) \<and>
           map_of m (name @ ''_pressed.'' @ ext) = Some (COLOR_SELECTION_NORMAL pal)"
proof -
  from one_sep_split [OF assms] obtain name ext
    where s: "str_split CHR ''.'' fname = [name, ext]" by blast
  show ?thesis
    using s get_file_color_map_split [OF s, of pal] by simp
qed

theorem get_file_color_map_palette_fields_witness:
  "count_list ''icon.svg'' CHR ''.'' = 1 \<and>
   (\<exists>m. get_file_color_map ''icon.svg''
           \<lparr>COLOR_BACKGROUND_NORMAL = ''#222222'', COLOR_SELECTION_LIGHT = ''#333333'',
            COLOR_SELECTION_NORMAL = ''#444444'', COLOR_FOREGROUND_DARK = ''#111111''\<rparr> = Inr m \<and>
        map_of m ''icon.svg'' = Some ''#111111'' \<and>
        map_of m ''icon_disabled.svg'' = Some ''#222222'' \<and>
        map_of m ''icon_focus.svg'' = Some ''#333333'' \<and>
        map_of m ''icon_pressed.svg'' = Some ''#444444'')"
proof -
  let ?pal = "\<lparr>COLOR_BACKGROUND_NORMAL = ''#222222'', COLOR_SELECTION_LIGHT = ''#333333'',
               COLOR_SELECTION_NORMAL = ''#444444'', COLOR_FOREGROUND_DARK = ''#111111''\<rparr>"
  have h: "count_list ''icon.svg'' CHR ''.'' = 1" by simp
  from get_file_color_map_palette_fields [OF h, of ?pal] obtain name ext m
    where s: "str_split CHR ''.'' ''icon.svg'' = [name, ext]"
      and m: "get_file_color_map ''icon.svg'' ?pal = Inr m"
      and k: "map_of m (name @ ''.'' @ ext) = Some (COLOR_FOREGROUND_DARK ?pal)"
             "map_of m (name @ ''_disabled.'' @ ext) = Some (COLOR_BACKGROUND_NORMAL ?pal)"
             "map_of m (name @ ''_focus.'' @ ext) = Some (COLOR_SELECTION_LIGHT ?pal)"
             "map_of m (name @ ''_pressed.'' @ ext) = Some (COLOR_SELECTION_NORMAL ?pal)"
    by (elim exE conjE) (rule that)
  from s have "name = ''icon''" "ext = ''svg''" by simp_all
  with h m k show ?thesis by simp
qed

section \<open>Facts about replacing\<close>

lemma str_replace_absent:
  "old \<noteq> [] \<Longrightarrow> \<not> sublist old s \<Longrightarrow> str_replace old new s = s"
  by (induction s) (auto simp: sublist_Cons_right)

lemma str_replace_at_prefix:
  "old \<noteq> [] \<Longrightarrow> str_replace old new (old @ rest) = new @ str_replace old new rest"
  by (cases old) auto

lemma str_replace_skip:
  "old \<noteq> [] \<Longrightarrow> \<not> prefix old (c # cs) \<Longrightarrow>
     str_replace old new (c # cs) = c # str_replace old new cs"
  by simp

lemma str_replace_hit:
  "old \<noteq> [] \<Longrightarrow> prefix old (c # cs) \<Longrightarrow>
     str_replace old new (c # cs) = new @ str_replace old new (drop (length old) (c # cs))"
  by simp

lemma no_straddle:
  assumes "old = h # q" "h \<notin> set q" "\<not> sublist old u" "prefix old (u @ old @ rest)"
  shows "u = []"
proof (cases u)
  case Nil
  then show ?thesis .
next
  case (Cons a u')
  with assms(1,4) have a: "a = h" and p: "prefix q (u' @ old @ rest)" by auto
  from p have "prefix q u' \<or> (\<exists>us. q = u' @ us \<and> prefix us (old @ rest))"
    by (simp add: prefix_append)
  then show ?thesis
  proof
    assume "prefix q u'"
    then have "prefix old u" using assms(1) a Cons by simp
    with assms(3) show ?thesis by (auto dest: prefix_imp_sublist)
  next
    assume "\<exists>us. q = u' @ us \<and> prefix us (old @ rest)"
    then obtain us where us: "q = u' @ us" "prefix us (old @ rest)" by blast
    show ?thesis
    proof (cases us)
      case Nil
      with us have "prefix old u" using assms(1) a Cons by simp
      with assms(3) show ?thesis by (auto dest: prefix_imp_sublist)
    next
      case (Cons b us')
      with us(2) assms(1) have "b = h" by auto
      with us(1) Cons assms(2) show ?thesis by auto
    qed
  qed
qed

lemma str_replace_first:
  assumes "old = h # q" "h \<notin> set q" "\<not> sublist old u"
  shows "str_replace old new (u @ old @ rest) = u @ new @ str_replace old new rest"
  using assms(3)
proof (induction u)
  case Nil
  from assms(1) show ?case using str_replace_at_prefix [of old new rest] by simp
next
  case (Cons a u)
  from Cons.prems have nu: "\<not> sublist old u" by (simp add: sublist_Cons_right)
  have np: "\<not> prefix old (a # (u @ old @ rest))"
    using no_straddle [OF assms(1,2) Cons.prems, of rest] by auto
  have ne: "old \<noteq> []" using assms(1) by simp
  show ?case using str_replace_skip [OF ne np, of new] Cons.IH [OF nu] by simp
qed

lemma str_replace_join:
  assumes "old = h # q" "h \<notin> set q"
  shows "(\<forall>g\<in>set segs. \<not> sublist old g) \<Longrightarrow>
           str_replace old new (str_join old segs) = str_join new segs"
proof (induction segs rule: induct_list012)
  case 1
  then show ?case using assms(1) by simp
next
  case (2 p)
  then show ?case using assms(1) by (simp add: str_replace_absent)
next
  case (3 p p' ps)
  then show ?case using str_replace_first [OF assms, of p new "str_join old (p' # ps)"]
    by simp
qed

lemma prefix_of_replaced_text:
  assumes ne: "old \<noteq> []"
    and h3: "\<forall>u\<in>set (prefixes new). u \<noteq> [] \<longrightarrow> \<not> suffix u old"
    and h4: "\<not> sublist new old"
  shows "suffix q old \<Longrightarrow> q \<noteq> old \<Longrightarrow> prefix q (str_replace old new xs) \<Longrightarrow> prefix q xs"
proof (induction xs arbitrary: q)
  case Nil
  then show ?case using ne by simp
next
  case (Cons y ys)
  show ?case
  proof (cases "q = []")
    case True
    then show ?thesis by simp
  next
    case qne: False
    show ?thesis
    proof (cases "prefix old (y # ys)")
      case True
      let ?t = "str_replace old new (drop (length old) (y # ys))"
      from Cons.prems(3) have "prefix q (new @ ?t)"
        unfolding str_replace_hit [OF ne True] .
      then have "prefix q new \<or> (\<exists>us. q = new @ us \<and> prefix us ?t)"
        by (simp add: prefix_append)
      then show ?thesis
      proof
        assume "prefix q new"
        then have "q \<in> set (prefixes new)" by simp
        with h3 qne have "\<not> suffix q old" by blast
        with Cons.prems(1) show ?thesis by contradiction
      next
        assume "\<exists>us. q = new @ us \<and> prefix us ?t"
        then obtain us where "q = new @ us" by blast
        with Cons.prems(1) have "sublist new old"
          by (auto simp: suffix_def sublist_def)
        with h4 show ?thesis by contradiction
      qed
    next
      case False
      from Cons.prems(3) have pp: "prefix q (y # str_replace old new ys)"
        unfolding str_replace_skip [OF ne False] .
      with qne obtain q' where q: "q = y # q'" and p': "prefix q' (str_replace old new ys)"
        by (cases q) auto
      from Cons.prems(1) q have s': "suffix q' old" by (auto dest: suffix_ConsD)
      from Cons.prems(1) q have "length q' < length old"
        by (auto dest: suffix_length_le)
      then have "q' \<noteq> old" by auto
      from Cons.IH [OF s' this p'] q show ?thesis by simp
    qed
  qed
qed

lemma str_replace_leaves_none:
  assumes h1: "\<not> sublist old new"
    and h4: "\<not> sublist new old"
    and h2: "\<forall>u\<in>set (suffixes new). u \<noteq> [] \<longrightarrow> \<not> prefix u old"
    and h3: "\<forall>u\<in>set (prefixes new). u \<noteq> [] \<longrightarrow> \<not> suffix u old"
  shows "\<not> sublist old (str_replace old new s)"
proof -
  from h1 have ne: "old \<noteq> []" by auto
  show ?thesis
  proof (induction s rule: length_induct)
    case (1 s)
    show ?case
    proof (cases s)
      case Nil
      then show ?thesis using ne by simp
    next
      case (Cons y ys)
      show ?thesis
      proof (cases "prefix old (y # ys)")
        case True
        let ?t = "str_replace old new (drop (length old) (y # ys))"
        have "length (drop (length old) (y # ys)) < length s"
          using ne Cons by simp
        with 1 have t: "\<not> sublist old ?t" by blast
        have res: "str_replace old new s = new @ ?t"
          unfolding Cons str_replace_hit [OF ne True] ..
        have "\<not> sublist old (new @ ?t)"
        proof
          assume "sublist old (new @ ?t)"
          then have "sublist old new \<or> sublist old ?t \<or>
                     (\<exists>x1 x2. old = x1 @ x2 \<and> suffix x1 new \<and> prefix x2 ?t)"
            by (simp add: sublist_append)
          with h1 t obtain x1 x2 where x: "old = x1 @ x2" "suffix x1 new" "prefix x2 ?t"
            by blast
          show False
          proof (cases "x1 = []")
            case True
            with x(1,3) have "sublist old ?t" by auto
            with t show False by contradiction
          next
            case False
            from x(2) have "x1 \<in> set (suffixes new)" by simp
            with h2 False have "\<not> prefix x1 old" by blast
            with x(1) show False by simp
          qed
        qed
        then show ?thesis unfolding res .
      next
        case False
        let ?t = "str_replace old new ys"
        from 1 Cons have t: "\<not> sublist old ?t" by simp
        have res: "str_replace old new s = y # ?t"
          unfolding Cons str_replace_skip [OF ne False] ..
        have "\<not> prefix old (y # ?t)"
        proof
          assume p: "prefix old (y # ?t)"
          with ne obtain q where o: "old = y # q" and pq: "prefix q ?t"
            by (cases old) auto
          have "suffix q old" unfolding o by (simp add: suffix_ConsI)
          moreover have "q \<noteq> old" unfolding o by simp
          ultimately have "prefix q ys"
            using prefix_of_replaced_text [OF ne h3 h4] pq by blast
          with o False show False by simp
        qed
        with t show ?thesis unfolding res by (simp add: sublist_Cons_right)
      qed
    qed
  qed
qed

lemma sublist_same_length: "sublist xs ys \<Longrightarrow> length xs = length ys \<Longrightarrow> xs = ys"
  by (auto simp: sublist_def)

lemma marked_colour_admissible:
  assumes o: "old = h # q" and hq: "h \<notin> set q"
    and n: "new = h # r" and hr: "h \<notin> set r"
    and len: "length new = length old" and ne: "new \<noteq> old"
  shows "\<not> sublist old new \<and> \<not> sublist new old \<and>
         (\<forall>u\<in>set (suffixes new). u \<noteq> [] \<longrightarrow> \<not> prefix u old) \<and>
         (\<forall>u\<in>set (prefixes new). u \<noteq> [] \<longrightarrow> \<not> suffix u old)"
proof (intro conjI ballI impI)
  show "\<not> sublist old new"
    using sublist_same_length [of old new] len ne by auto
  show "\<not> sublist new old"
    using sublist_same_length [of new old] len ne by auto
next
  fix u assume u: "u \<in> set (suffixes new)" "u \<noteq> []"
  show "\<not> prefix u old"
  proof
    assume p: "prefix u old"
    with u(2) o obtain u' where u': "u = h # u'" by (cases u) auto
    from u(1) obtain ps where c: "new = ps @ u" by (auto simp: suffix_def)
    have "ps = []"
    proof (cases ps)
      case Nil
      then show ?thesis .
    next
      case (Cons a ps')
      with c n u' have "r = ps' @ h # u'" by simp
      with hr show ?thesis by simp
    qed
    with c p have "prefix new old" by simp
    with len have "new = old" by (auto simp: prefix_def)
    with ne show False by contradiction
  qed
next
  fix u assume u: "u \<in> set (prefixes new)" "u \<noteq> []"
  show "\<not> suffix u old"
  proof
    assume s: "suffix u old"
    from u n obtain u' where u': "u = h # u'" by (cases u) auto
    from s obtain ps where c: "old = ps @ u" by (auto simp: suffix_def)
    have "ps = []"
    proof (cases ps)
      case Nil
      then show ?thesis .
    next
      case (Cons a ps')
      with c o u' have "q = ps' @ h # u'" by simp
      with hq show ?thesis by simp
    qed
    with c u(1) have "prefix old new" by simp
    with len have "new = old" by (auto simp: prefix_def)
    with ne show False by contradiction
  qed
qed

lemma hex_colour_admissible:
  assumes "color = CHR ''#'' # digits" "CHR ''#'' \<notin> set digits" "length digits = 6"
    "color \<noteq> ''#ff0000''"
  shows "\<not> sublist ''#ff0000'' color \<and> \<not> sublist color ''#ff0000'' \<and>
         (\<forall>u\<in>set (suffixes color). u \<noteq> [] \<longrightarrow> \<not> prefix u ''#ff0000'') \<and>
         (\<forall>u\<in>set (prefixes color). u \<noteq> [] \<longrightarrow> \<not> suffix u ''#ff0000'')"
proof -
  have o: "''#ff0000'' = CHR ''#'' # ''ff0000''" by simp
  have q: "CHR ''#'' \<notin> set ''ff0000''" by simp
  have l: "length color = length ''#ff0000''" using assms(1,3) by simp
  from marked_colour_admissible [OF o q assms(1,2) l assms(4)] show ?thesis .
qed

lemma ex_segments:
  assumes "old \<noteq> []"
  shows "\<exists>segs. segs \<noteq> [] \<and> s = str_join old segs \<and> (\<forall>g\<in>set segs. \<not> sublist old g)"
proof (induction s)
  case Nil
  show ?case using assms by (intro exI [of _ "[[]]"]) simp
next
  case (Cons c cs)
  then obtain g gs where g: "cs = str_join old (g # gs)" "\<forall>x\<in>set (g # gs). \<not> sublist old x"
    by (metis list.exhaust)
  show ?case
  proof (cases "sublist old (c # g)")
    case False
    have "c # cs = str_join old ((c # g) # gs)" using g(1) by (cases gs) auto
    with False g(2) show ?thesis by (intro exI [of _ "(c # g) # gs"]) simp
  next
    case True
    with g(2) have "prefix old (c # g)" by (simp add: sublist_Cons_right)
    then obtain g' where g': "c # g = old @ g'" by (auto simp: prefix_def)
    have "sublist g' g" using g' assms by (cases old) (auto intro: sublist_append_leftI)
    with g(2) have ng: "\<not> sublist old g'" using sublist_order.order_trans by auto
    have "c # cs = str_join old ([] # g' # gs)" using g(1) g' by (cases gs) auto
    with ng g(2) assms show ?thesis by (intro exI [of _ "[] # g' # gs"]) simp
  qed
qed

section \<open>Colorization\<close>

text \<open>
  C6. Colorization is the literal, case-sensitive substitution of every occurrence of the
  placeholder \<open>#ff0000\<close>: a text in which the placeholder does not occur is returned
  as it is (so \<open>#FF0000\<close> is not replaced), and a text made of pieces without the
  placeholder, separated by the placeholder, becomes the same pieces separated by the
  target colour; every text is made of such pieces. The function has no error result.
\<close>

theorem create_colored_svg_replaces_all:
  "(\<not> sublist ''#ff0000'' data \<longrightarrow> create_colored_svg data color = data) \<and>
   ((\<forall>g\<in>set segs. \<not> sublist ''#ff0000'' g) \<longrightarrow>
      create_colored_svg (str_join ''#ff0000'' segs) color = str_join color segs) \<and>
   (\<exists>pieces. data = str_join ''#ff0000'' pieces \<and>
      (\<forall>g\<in>set pieces. \<not> sublist ''#ff0000'' g)) \<and>
   create_colored_svg ''fill:#FF0000'' color = ''fill:#FF0000''"
proof (intro conjI impI)
  assume "\<not> sublist ''#ff0000'' data"
  then show "create_colored_svg data color = data"
    by (simp add: create_colored_svg_def str_replace_absent)
next
  assume "\<forall>g\<in>set segs. \<not> sublist ''#ff0000'' g"
  then show "create_colored_svg (str_join ''#ff0000'' segs) color = str_join color segs"
    using str_replace_join [of "''#ff0000''" "CHR ''#''" "''ff0000''" segs color]
    by (simp add: create_colored_svg_def)
next
  show "\<exists>pieces. data = str_join ''#ff0000'' pieces \<and>
          (\<forall>g\<in>set pieces. \<not> sublist ''#ff0000'' g)"
    using ex_segments [of "''#ff0000''" data] by blast
next
  show "create_colored_svg ''fill:#FF0000'' color = ''fill:#FF0000''"
    by (simp add: create_colored_svg_def)
qed

theorem create_colored_svg_replaces_all_witness:
  "\<not> sublist ''#ff0000'' ''<svg/>'' \<and>
   create_colored_svg ''<svg/>'' ''#19232D'' = ''<svg/>'' \<and>
   \<not> sublist ''#ff0000'' ''<a fill='' \<and> \<not> sublist ''#ff0000'' '' stroke='' \<and>
   \<not> sublist ''#ff0000'' ''/>'' \<and>
   create_colored_svg ''<a fill=#ff0000 stroke=#ff0000/>'' ''#19232D'' =
     ''<a fill=#19232D stroke=#19232D/>''"
proof -
  have a: "\<not> sublist ''#ff0000'' ''<svg/>''"
    by (simp add: sublist_Cons_right)
  have b: "\<forall>g\<in>set [''<a fill='', '' stroke='', ''/>'']. \<not> sublist ''#ff0000'' g"
    by (simp add: sublist_Cons_right)
  from create_colored_svg_replaces_all
         [where data = "''<svg/>''" and segs = "[''<a fill='', '' stroke='', ''/>'']"
            and color = "''#19232D''"] a b
  show ?thesis by simp
qed

text \<open>
  C7, as the claim states it: colorizing twice with a colour other than the placeholder
  gives the same text as colorizing once. The colour \<open>#ff0000ff\<close> (red with an alpha
  channel) begins with the placeholder, and the second pass replaces that beginning again.
\<close>

theorem create_colored_svg_not_idempotent:
  "''#ff0000ff'' \<noteq> ''#ff0000'' \<and>
   create_colored_svg (create_colored_svg ''fill:#ff0000'' ''#ff0000ff'') ''#ff0000ff''
     \<noteq> create_colored_svg ''fill:#ff0000'' ''#ff0000ff''"
  by (simp add: create_colored_svg_def)

text \<open>
  C7, amended. Colorizing twice is colorizing once for every colour that does not contain
  the placeholder and is not contained in it (so it is not empty), of which no non-empty
  ending is a beginning of the placeholder, and of which no non-empty beginning is an
  ending of the placeholder; and so for every colour \<open>#\<close> followed by six characters
  other than \<open>#\<close>, the placeholder itself apart. For such a colour the colorized text
  does not contain the placeholder.
\<close>

theorem create_colored_svg_idempotent:
  assumes "(\<not> sublist ''#ff0000'' color \<and> \<not> sublist color ''#ff0000'' \<and>
            (\<forall>u\<in>set (suffixes color). u \<noteq> [] \<longrightarrow> \<not> prefix u ''#ff0000'') \<and>
            (\<forall>u\<in>set (prefixes color). u \<noteq> [] \<longrightarrow> \<not> suffix u ''#ff0000'')) \<or>
           (color = CHR ''#'' # digits \<and> CHR ''#'' \<notin> set digits \<and> length digits = 6 \<and>
            color \<noteq> ''#ff0000'')"
  shows "\<not> sublist ''#ff0000'' (create_colored_svg data color) \<and>
         create_colored_svg (create_colored_svg data color) color = create_colored_svg data color"
proof -
  from assms hex_colour_admissible [of color digits]
  have a: "\<not> sublist ''#ff0000'' color" "\<not> sublist color ''#ff0000''"
    "\<forall>u\<in>set (suffixes color). u \<noteq> [] \<longrightarrow> \<not> prefix u ''#ff0000''"
    "\<forall>u\<in>set (prefixes color). u \<noteq> [] \<longrightarrow> \<not> suffix u ''#ff0000''"
    by blast+
  have n: "\<not> sublist ''#ff0000'' (str_replace ''#ff0000'' color data)"
    using a by (rule str_replace_leaves_none)
  then show ?thesis
    by (simp add: create_colored_svg_def str_replace_absent)
qed

theorem create_colored_svg_idempotent_witness:
  "create_colored_svg (create_colored_svg ''fill:#ff0000;stroke:#ff0000'' ''#19232D'') ''#19232D'' =
     ''fill:#19232D;stroke:#19232D'' \<and>
   create_colored_svg (create_colored_svg ''##ff0000'' ''blue'') ''blue'' = ''#blue''"
proof -
  have a: "\<not> sublist ''#ff0000'' ''blue''" "\<not> sublist ''blue'' ''#ff0000''"
    by (simp_all add: sublist_Cons_right)
  have b: "\<forall>u\<in>set (suffixes ''blue''). u \<noteq> [] \<longrightarrow> \<not> prefix u ''#ff0000''"
    by (simp del: in_set_suffixes)
  have c: "\<forall>u\<in>set (prefixes ''blue''). u \<noteq> [] \<longrightarrow> \<not> suffix u ''#ff0000''"
    by (simp add: suffix_to_prefix del: in_set_prefixes)
  have blue: "(\<not> sublist ''#ff0000'' ''blue'' \<and> \<not> sublist ''blue'' ''#ff0000'' \<and>
            (\<forall>u\<in>set (suffixes ''blue''). u \<noteq> [] \<longrightarrow> \<not> prefix u ''#ff0000'') \<and>
            (\<forall>u\<in>set (prefixes ''blue''). u \<noteq> [] \<longrightarrow> \<not> suffix u ''#ff0000'')) \<or>
           (''blue'' = CHR ''#'' # [] \<and> CHR ''#'' \<notin> set [] \<and> length ([] :: string) = 6 \<and>
            ''blue'' \<noteq> ''#ff0000'')"
    using a b c by (intro disjI1 conjI)
  have hex: "(\<not> sublist ''#ff0000'' ''#19232D'' \<and> \<not> sublist ''#19232D'' ''#ff0000'' \<and>
            (\<forall>u\<in>set (suffixes ''#19232D''). u \<noteq> [] \<longrightarrow> \<not> prefix u ''#ff0000'') \<and>
            (\<forall>u\<in>set (prefixes ''#19232D''). u \<noteq> [] \<longrightarrow> \<not> suffix u ''#ff0000'')) \<or>
           (''#19232D'' = CHR ''#'' # ''19232D'' \<and> CHR ''#'' \<notin> set ''19232D'' \<and>
            length ''19232D'' = 6 \<and> ''#19232D'' \<noteq> ''#ff0000'')"
    by (intro disjI2) simp
  have e: "create_colored_svg ''fill:#ff0000;stroke:#ff0000'' ''#19232D'' =
             ''fill:#19232D;stroke:#19232D''"
    "create_colored_svg ''##ff0000'' ''blue'' = ''#blue''"
    by (simp_all add: create_colored_svg_def)
  from create_colored_svg_idempotent [OF hex, of "''fill:#ff0000;stroke:#ff0000''"]
    create_colored_svg_idempotent [OF blue, of "''##ff0000''"] e
  show ?thesis by simp
qed

section \<open>Reference extraction\<close>

















section \<open>The manifest\<close>

lemma format_file_line:
  "str_format [''fname'' \<mapsto> fname] None TEMPLATE_QRC_FILE =
     Inr (''    <file>rc/'' @ fname @ ''</file>'')"
  by (simp add: TEMPLATE_QRC_FILE_def)

lemma format_header:
  "str_format [''resource_prefix'' \<mapsto> p] None TEMPLATE_QRC_HEADER =
     Inr (''\<newline><RCC warning='' @ [CHR 0x22] @
          ''File created programmatically. All changes made in this file will be lost!'' @
          [CHR 0x22] @ ''>\<newline>  <qresource prefix='' @ [CHR 0x22] @ p @ [CHR 0x22] @
          ''>\<newline>'')"
  by (simp add: TEMPLATE_QRC_HEADER_def)

lemma format_footer:
  "str_format [''style_prefix'' \<mapsto> p] None TEMPLATE_QRC_FOOTER =
     Inr (''\<newline>  </qresource>\<newline>  <qresource prefix='' @ [CHR 0x22] @ p @ [CHR 0x22] @
          ''>\<newline>      <file>style.qss</file>\<newline>  </qresource>\<newline></RCC>\<newline>'')"
  by (simp add: TEMPLATE_QRC_FOOTER_def)

lemma format_files_map:
  "format_files fnames = Inr (map (\<lambda>fname. ''    <file>rc/'' @ fname @ ''</file>'') fnames)"
  by (induction fnames) (simp_all add: format_file_line)

lemma str_join_lines:
  "str_join sep xs =
     (if xs = [] then [] else concat (map (\<lambda>x. x @ sep) (butlast xs)) @ last xs)"
  by (induction xs rule: induct_list012) simp_all

text \<open>
  C8. The manifest is the header with \<open>resource_prefix\<close> in it, then one line
  \<open>    <file>rc/{fname}</file>\<close> for each file of the directory, in sorted order of
  the file names, every line but the last followed by a newline, then the footer with
  \<open>style_prefix\<close> in it, which declares the one extra file \<open>style.qss\<close>. No exception
  is raised. For the directory with \<open>b.png\<close> and \<open>a.png\<close> and the default prefixes the
  manifest is the text of the last equation.
\<close>

theorem generate_qrc_file_structure:
  "generate_qrc_file rc_dir resource_prefix style_prefix =
     Inr (''\<newline><RCC warning='' @ [CHR 0x22] @
          ''File created programmatically. All changes made in this file will be lost!'' @
          [CHR 0x22] @ ''>\<newline>  <qresource prefix='' @ [CHR 0x22] @ resource_prefix @
          [CHR 0x22] @ ''>\<newline>'' @
          (if sort rc_dir = [] then []
           else concat (map (\<lambda>fname. ''    <file>rc/'' @ fname @ ''</file>\<newline>'')
                          (butlast (sort rc_dir))) @
                ''    <file>rc/'' @ last (sort rc_dir) @ ''</file>'') @
          ''\<newline>  </qresource>\<newline>  <qresource prefix='' @ [CHR 0x22] @ style_prefix @
          [CHR 0x22] @
          ''>\<newline>      <file>style.qss</file>\<newline>  </qresource>\<newline></RCC>\<newline>'') \<and>
   sorted (sort rc_dir) \<and> mset (sort rc_dir) = mset rc_dir \<and>
   generate_qrc_file [''b.png'', ''a.png''] ''qss_icons'' ''qdarkstyle'' =
     Inr (''\<newline><RCC warning='' @ [CHR 0x22] @
          ''File created programmatically. All changes made in this file will be lost!'' @
          [CHR 0x22] @ ''>\<newline>  <qresource prefix='' @ [CHR 0x22] @ ''qss_icons'' @
          [CHR 0x22] @ ''>\<newline>'' @
          ''    <file>rc/a.png</file>\<newline>'' @
          ''    <file>rc/b.png</file>'' @
          ''\<newline>  </qresource>\<newline>  <qresource prefix='' @ [CHR 0x22] @ ''qdarkstyle'' @
          [CHR 0x22] @
          ''>\<newline>      <file>style.qss</file>\<newline>  </qresource>\<newline></RCC>\<newline>'')"
proof (intro conjI)
  have e: "str_join ''\<newline>'' (map (\<lambda>fname. ''    <file>rc/'' @ fname @ ''</file>'') xs) =
             (if xs = [] then []
              else concat (map (\<lambda>fname. ''    <file>rc/'' @ fname @ ''</file>\<newline>'') (butlast xs)) @
                   ''    <file>rc/'' @ last xs @ ''</file>'')" for xs :: "string list"
    by (simp add: str_join_lines map_butlast [symmetric] last_map comp_def)
  show "generate_qrc_file rc_dir resource_prefix style_prefix =
     Inr (''\<newline><RCC warning='' @ [CHR 0x22] @
          ''File created programmatically. All changes made in this file will be lost!'' @
          [CHR 0x22] @ ''>\<newline>  <qresource prefix='' @ [CHR 0x22] @ resource_prefix @
          [CHR 0x22] @ ''>\<newline>'' @
          (if sort rc_dir = [] then []
           else concat (map (\<lambda>fname. ''    <file>rc/'' @ fname @ ''</file>\<newline>'')
                          (butlast (sort rc_dir))) @
                ''    <file>rc/'' @ last (sort rc_dir) @ ''</file>'') @
          ''\<newline>  </qresource>\<newline>  <qresource prefix='' @ [CHR 0x22] @ style_prefix @
          [CHR 0x22] @
          ''>\<newline>      <file>style.qss</file>\<newline>  </qresource>\<newline></RCC>\<newline>'')"
  proof -
    have g: "generate_qrc_file rc_dir resource_prefix style_prefix =
       Inr (''\<newline><RCC warning='' @ [CHR 0x22] @
          ''File created programmatically. All changes made in this file will be lost!'' @
          [CHR 0x22] @ ''>\<newline>  <qresource prefix='' @ [CHR 0x22] @ resource_prefix @
          [CHR 0x22] @ ''>\<newline>'' @
          str_join ''\<newline>''
            (map (\<lambda>fname. ''    <file>rc/'' @ fname @ ''</file>'') (sort rc_dir)) @
          ''\<newline>  </qresource>\<newline>  <qresource prefix='' @ [CHR 0x22] @ style_prefix @
          [CHR 0x22] @
          ''>\<newline>      <file>style.qss</file>\<newline>  </qresource>\<newline></RCC>\<newline>'')"
      by (simp add: generate_qrc_file_def format_files_map format_header format_footer)
    show ?thesis unfolding g e ..
  qed
next
  show "sorted (sort rc_dir)" by simp
next
  show "mset (sort rc_dir) = mset rc_dir" by simp
next
  have s: "sort [''b.png'', ''a.png''] = [''a.png'', ''b.png'']"
    by (simp add: less_char_def less_eq_char_def)
  show "generate_qrc_file [''b.png'', ''a.png''] ''qss_icons'' ''qdarkstyle'' =
     Inr (''\<newline><RCC warning='' @ [CHR 0x22] @
          ''File created programmatically. All changes made in this file will be lost!'' @
          [CHR 0x22] @ ''>\<newline>  <qresource prefix='' @ [CHR 0x22] @ ''qss_icons'' @
          [CHR 0x22] @ ''>\<newline>'' @
          ''    <file>rc/a.png</file>\<newline>'' @
          ''    <file>rc/b.png</file>'' @
          ''\<newline>  </qresource>\<newline>  <qresource prefix='' @ [CHR 0x22] @ ''qdarkstyle'' @
          [CHR 0x22] @
          ''>\<newline>      <file>style.qss</file>\<newline>  </qresource>\<newline></RCC>\<newline>'')"
    unfolding generate_qrc_file_def format_files_map format_header format_footer s
    by simp
qed

section \<open>One pass of the pipeline\<close>

lemma advance_advance:
  "advance (advance st a b c d e) a' b' c' d' e' =
     advance st (a @ a') (b @ b') (c + c') (d + d') (e @ e')"
  by (simp add: advance_def)

lemma advance_nothing: "advance st [] [] 0 0 [] = st"
  by (simp add: advance_def)

lemma for_each_append:
  "for_each body (xs @ ys) st =
     (case for_each body xs st of Inl e \<Rightarrow> Inl e | Inr st' \<Rightarrow> for_each body ys st')"
  by (induction xs arbitrary: st) (auto split: sum.splits)

lemma process_variant_advance:
  "process_variant env bh h e data (v, c) st =
     Inr (advance st
            [(os_path_join (temp_dir env) v, create_colored_svg data c)]
            [(os_path_join (rc_path env) (str_replace ''.svg'' e v),
              render env (create_colored_svg data c) h h)]
            1 0
            (if h = bh then [rc_name (rc_path env) (str_replace ''.svg'' e v)] else []))"
  by (simp add: process_variant_def Let_def list_remove_def rc_name_def advance_def
        remove1_idem)

lemma variants_loop_advance:
  "for_each (process_variant env bh h e data) items st =
     Inr (advance st
            (map (\<lambda>(v, c). (os_path_join (temp_dir env) v, create_colored_svg data c)) items)
            (map (\<lambda>(v, c). (os_path_join (rc_path env) (str_replace ''.svg'' e v),
                             render env (create_colored_svg data c) h h)) items)
            (length items) 0
            (if h = bh then map (\<lambda>(v, c). rc_name (rc_path env) (str_replace ''.svg'' e v)) items
             else []))"
proof (induction items arbitrary: st)
  case Nil
  show ?case by (simp add: advance_nothing)
next
  case (Cons item items)
  obtain v c where i: "item = (v, c)" by (cases item)
  show ?case
    unfolding i by (simp add: process_variant_advance Cons.IH advance_advance)
qed

lemma blacklisted_split:
  "str_split CHR ''.'' f = n # ns \<Longrightarrow> blacklisted f \<longleftrightarrow> n \<in> set IMAGE_BLACKLIST"
  by (simp add: blacklisted_def)

lemma process_template_blacklisted:
  assumes "blacklisted f"
  shows "process_template env bh h e (f, d) st = Inr (advance st [] [] 0 1 [])"
proof -
  obtain n ns where s: "str_split CHR ''.'' f = n # ns"
    using str_split_not_Nil [of "CHR ''.''" f] by (cases "str_split CHR ''.'' f") auto
  with assms have "n \<in> set IMAGE_BLACKLIST" by (simp add: blacklisted_split)
  with s show ?thesis
    by (simp add: process_template_def advance_def)
qed

lemma process_template_bad:
  assumes "\<not> blacklisted f" "count_list f CHR ''.'' \<noteq> 1"
  shows "process_template env bh h e (f, d) st = Inl (ValueError, st)"
proof -
  obtain n ns where s: "str_split CHR ''.'' f = n # ns"
    using str_split_not_Nil [of "CHR ''.''" f] by (cases "str_split CHR ''.'' f") auto
  with assms have "n \<notin> set IMAGE_BLACKLIST" by (simp add: blacklisted_split)
  with s get_file_color_map_error [OF assms(2)] show ?thesis
    by (simp add: process_template_def)
qed

lemma variants_of_length:
  assumes "count_list f CHR ''.'' = 1"
  shows "get_file_color_map f p = Inr (variants_of p f) \<and> length (variants_of p f) = 4"
proof -
  from one_sep_split [OF assms] obtain n x where "str_split CHR ''.'' f = [n, x]" by blast
  from get_file_color_map_split [OF this, of p] show ?thesis
    by (simp add: variants_of_def)
qed

lemma process_template_good:
  assumes "\<not> blacklisted f" "count_list f CHR ''.'' = 1"
  shows "process_template env bh h e (f, d) st =
           Inr (advance st (temp_writes env (f, d)) (png_writes env h e (f, d)) 4 0
                  (if h = bh then map (rc_name (rc_path env)) (png_fnames (palette env) e f)
                   else []))"
proof -
  obtain n ns where s: "str_split CHR ''.'' f = n # ns"
    using str_split_not_Nil [of "CHR ''.''" f] by (cases "str_split CHR ''.'' f") auto
  with assms have nb: "n \<notin> set IMAGE_BLACKLIST" by (simp add: blacklisted_split)
  from variants_of_length [OF assms(2), of "palette env"]
  have g: "get_file_color_map f (palette env) = Inr (variants_of (palette env) f)"
    and l: "length (variants_of (palette env) f) = 4" by simp_all
  show ?thesis
    using s nb assms(1) l
    by (simp add: process_template_def g variants_loop_advance temp_writes_def
          png_writes_def png_fnames_def split_def comp_def)
qed

lemma pass_advance:
  assumes "\<forall>(f, d)\<in>set svgs. blacklisted f \<or> count_list f CHR ''.'' = 1"
  shows "for_each (process_template env bh h e) svgs st =
           Inr (advance st
                  (concat (map (temp_writes env) svgs))
                  (concat (map (png_writes env h e) svgs))
                  (4 * length (filter (\<lambda>(f, d). \<not> blacklisted f) svgs))
                  (length (filter (\<lambda>(f, d). blacklisted f) svgs))
                  (if h = bh
                   then map (rc_name (rc_path env))
                          (concat (map (\<lambda>(f, d). png_fnames (palette env) e f) svgs))
                   else []))"
  using assms
proof (induction svgs arbitrary: st)
  case Nil
  show ?case by (simp add: advance_nothing)
next
  case (Cons entry svgs)
  obtain f d where en: "entry = (f, d)" by (cases entry)
  from Cons.prems have rest: "\<forall>(f, d)\<in>set svgs. blacklisted f \<or> count_list f CHR ''.'' = 1"
    by simp
  show ?case
  proof (cases "blacklisted f")
    case True
    then have "temp_writes env (f, d) = []" "png_writes env h e (f, d) = []"
      "png_fnames (palette env) e f = []"
      by (simp_all add: temp_writes_def png_writes_def png_fnames_def)
    with True show ?thesis
      unfolding en
      by (simp add: process_template_blacklisted Cons.IH [OF rest] advance_advance)
  next
    case False
    with Cons.prems en have "count_list f CHR ''.'' = 1" by simp
    with False show ?thesis
      unfolding en
      by (simp add: process_template_good Cons.IH [OF rest] advance_advance)
  qed
qed

lemma pass_abort:
  assumes "\<forall>(f, d)\<in>set pre. blacklisted f \<or> count_list f CHR ''.'' = 1"
    and "\<not> blacklisted f" "count_list f CHR ''.'' \<noteq> 1"
  shows "for_each (process_template env bh h e) (pre @ (f, d) # post) st =
           Inl (ValueError,
                advance st
                  (concat (map (temp_writes env) pre))
                  (concat (map (png_writes env h e) pre))
                  (4 * length (filter (\<lambda>(f, d). \<not> blacklisted f) pre))
                  (length (filter (\<lambda>(f, d). blacklisted f) pre))
                  (if h = bh
                   then map (rc_name (rc_path env))
                          (concat (map (\<lambda>(f, d). png_fnames (palette env) e f) pre))
                   else []))"
  by (simp add: for_each_append pass_advance [OF assms(1)] process_template_bad [OF assms(2,3)])

lemma heights_items:
  "dict_display [(32::nat, ''.png''), (64, ''@2x.png'')] = [(32, ''.png''), (64, ''@2x.png'')]"
  by (simp add: dict_display_def)

lemma create_images_completes:
  assumes "\<forall>(f, d)\<in>set (svg_templates svg_dir). blacklisted f \<or> count_list f CHR ''.'' = 1"
  shows "create_images env svg_dir scss =
           Inr (advance
                  \<lparr>temp_files = [], png_files = [],
                   num_svg = length (svg_templates svg_dir), num_png = 0, num_ignored = 0,
                   num_rc_list = length (get_rc_links_from_scss default_pattern scss),
                   rc_list = get_rc_links_from_scss default_pattern scss\<rparr>
                  (concat (map (temp_writes env) (svg_templates svg_dir)) @
                   concat (map (temp_writes env) (svg_templates svg_dir)))
                  (concat (map (png_writes env 32 ''.png'') (svg_templates svg_dir)) @
                   concat (map (png_writes env 64 ''@2x.png'') (svg_templates svg_dir)))
                  (8 * length (filter (\<lambda>(f, d). \<not> blacklisted f) (svg_templates svg_dir)))
                  (2 * length (filter (\<lambda>(f, d). blacklisted f) (svg_templates svg_dir)))
                  (map (rc_name (rc_path env))
                     (concat (map (\<lambda>(f, d). png_fnames (palette env) ''.png'' f)
                                (svg_templates svg_dir)))))"
  unfolding create_images_def Let_def heights_items svg_templates_def [symmetric]
  by (simp add: pass_advance [OF assms] advance_advance mult_2)

lemma create_images_aborts:
  assumes "svg_templates svg_dir = pre @ (f, d) # post"
    and "\<forall>(f, d)\<in>set pre. blacklisted f \<or> count_list f CHR ''.'' = 1"
    and "\<not> blacklisted f" "count_list f CHR ''.'' \<noteq> 1"
  shows "create_images env svg_dir scss =
           Inl (ValueError,
                advance
                  \<lparr>temp_files = [], png_files = [],
                   num_svg = length (svg_templates svg_dir), num_png = 0, num_ignored = 0,
                   num_rc_list = length (get_rc_links_from_scss default_pattern scss),
                   rc_list = get_rc_links_from_scss default_pattern scss\<rparr>
                  (concat (map (temp_writes env) pre))
                  (concat (map (png_writes env 32 ''.png'') pre))
                  (4 * length (filter (\<lambda>(f, d). \<not> blacklisted f) pre))
                  (length (filter (\<lambda>(f, d). blacklisted f) pre))
                  (map (rc_name (rc_path env))
                     (concat (map (\<lambda>(f, d). png_fnames (palette env) ''.png'' f) pre))))"
  unfolding create_images_def Let_def heights_items svg_templates_def [symmetric]
  by (simp add: assms(1) pass_abort [OF assms(2,3,4)])

section \<open>Failures and the blacklist\<close>

lemma png_files_advance [simp]: "png_files (advance st a b c d e) = png_files st @ b"
  and temp_files_advance [simp]: "temp_files (advance st a b c d e) = temp_files st @ a"
  and num_png_advance [simp]: "num_png (advance st a b c d e) = num_png st + c"
  and num_ignored_advance [simp]: "num_ignored (advance st a b c d e) = num_ignored st + d"
  and rc_list_advance [simp]:
    "rc_list (advance st a b c d e) = foldl (\<lambda>l n. remove1 n l) (rc_list st) e"
  and num_svg_advance [simp]: "num_svg (advance st a b c d e) = num_svg st"
  and num_rc_list_advance [simp]: "num_rc_list (advance st a b c d e) = num_rc_list st"
  by (simp_all add: advance_def)

lemma writes_of_blacklisted:
  "blacklisted f \<Longrightarrow> temp_writes env (f, d) = []"
  "blacklisted f \<Longrightarrow> png_writes env h e (f, d) = []"
  "blacklisted f \<Longrightarrow> png_fnames p e f = []"
  by (simp_all add: temp_writes_def png_writes_def png_fnames_def)

lemma concat_map_filter_nonempty:
  "(\<And>x. x \<in> set xs \<Longrightarrow> \<not> P x \<Longrightarrow> g x = []) \<Longrightarrow>
     concat (map g (filter P xs)) = concat (map g xs)"
  by (induction xs) auto

lemma svg_templates_filter:
  "svg_templates (filter P svg_dir) = filter P (svg_templates svg_dir)"
  by (auto simp: svg_templates_def intro: filter_cong)

text \<open>
  C2, as the claim states it: a template whose name does not split into a name and an
  extension stops only its own processing. The listing below has such a template,
  \<open>a.b.svg\<close>, before \<open>icon.svg\<close>: the run ends with \<open>ValueError\<close> and has written no
  file for \<open>icon.svg\<close>.
\<close>

theorem create_images_bad_filename_aborts_run:
  "create_images example_env [(''a.b.svg'', ''<svg/>''), (''icon.svg'', ''<svg/>'')] [] =
     Inl (ValueError,
          \<lparr>temp_files = [], png_files = [], num_svg = 2, num_png = 0, num_ignored = 0,
           num_rc_list = 0, rc_list = []\<rparr>)"
proof -
  have t: "svg_templates [(''a.b.svg'', ''<svg/>''), (''icon.svg'', ''<svg/>'')] =
             [] @ (''a.b.svg'', ''<svg/>'') # [(''icon.svg'', ''<svg/>'')]"
    by (simp add: svg_templates_def suffix_to_prefix)
  have b: "\<not> blacklisted ''a.b.svg''"
    by (simp add: blacklisted_def IMAGE_BLACKLIST_def)
  have c: "count_list ''a.b.svg'' CHR ''.'' \<noteq> 1" by simp
  have r: "get_rc_links_from_scss default_pattern [] = []"
    by (simp add: get_rc_links_from_scss_def default_pattern_def)
  show ?thesis
    using create_images_aborts [OF t _ b c, of example_env "[]"]
    by (simp add: advance_def r t)
qed

text \<open>
  C2, amended. \<open>create_images\<close> does not catch the \<open>ValueError\<close> of a template name
  that is not blacklisted and does not have exactly one \<open>'.'\<close>: the run ends with that
  exception at the first such template, in the pass for the base size. The templates
  listed before it have been processed for the base size only, four files each; no
  later template and no second size is processed.
\<close>

theorem create_images_stops_at_bad_filename:
  assumes "svg_templates svg_dir = pre @ (f, d) # post"
    and "\<forall>(f, d)\<in>set pre. blacklisted f \<or> count_list f CHR ''.'' = 1"
    and "\<not> blacklisted f" "count_list f CHR ''.'' \<noteq> 1"
  shows "\<exists>st. create_images env svg_dir scss = Inl (ValueError, st) \<and>
              temp_files st = concat (map (temp_writes env) pre) \<and>
              png_files st = concat (map (png_writes env 32 ''.png'') pre) \<and>
              num_png st = 4 * length (filter (\<lambda>(f, d). \<not> blacklisted f) pre) \<and>
              num_ignored st = length (filter (\<lambda>(f, d). blacklisted f) pre)"
  unfolding create_images_aborts [OF assms] by simp

theorem create_images_stops_at_bad_filename_witness:
  "create_images example_env
     [(''ok.svg'', ''<svg/>''), (''a.b.svg'', ''<svg/>''), (''icon.svg'', ''<svg/>'')] [] =
   Inl (ValueError,
        \<lparr>temp_files = [(''/tmp/tmp0/ok.svg'', ''<svg/>''),
                       (''/tmp/tmp0/ok_disabled.svg'', ''<svg/>''),
                       (''/tmp/tmp0/ok_focus.svg'', ''<svg/>''),
                       (''/tmp/tmp0/ok_pressed.svg'', ''<svg/>'')],
         png_files = [(''/repo/rc/ok.png'', ''<svg/>''),
                      (''/repo/rc/ok_disabled.png'', ''<svg/>''),
                      (''/repo/rc/ok_focus.png'', ''<svg/>''),
                      (''/repo/rc/ok_pressed.png'', ''<svg/>'')],
         num_svg = 3, num_png = 4, num_ignored = 0, num_rc_list = 0, rc_list = []\<rparr>)"
proof -
  let ?dir = "[(''ok.svg'', ''<svg/>''), (''a.b.svg'', ''<svg/>''), (''icon.svg'', ''<svg/>'')]"
  have t: "svg_templates ?dir =
             [(''ok.svg'', ''<svg/>'')] @ (''a.b.svg'', ''<svg/>'') # [(''icon.svg'', ''<svg/>'')]"
    by (simp add: svg_templates_def suffix_to_prefix)
  have p: "\<forall>(f, d)\<in>set [(''ok.svg'', ''<svg/>'')]. blacklisted f \<or> count_list f CHR ''.'' = 1"
    by simp
  have b: "\<not> blacklisted ''a.b.svg''"
    by (simp add: blacklisted_def IMAGE_BLACKLIST_def)
  have c: "count_list ''a.b.svg'' CHR ''.'' \<noteq> 1" by simp
  from create_images_stops_at_bad_filename [OF t p b c, of example_env "[]"]
  obtain st where st: "create_images example_env ?dir [] = Inl (ValueError, st)" by blast
  have "create_images example_env ?dir [] = Inl (ValueError,
        \<lparr>temp_files = [(''/tmp/tmp0/ok.svg'', ''<svg/>''),
                       (''/tmp/tmp0/ok_disabled.svg'', ''<svg/>''),
                       (''/tmp/tmp0/ok_focus.svg'', ''<svg/>''),
                       (''/tmp/tmp0/ok_pressed.svg'', ''<svg/>'')],
         png_files = [(''/repo/rc/ok.png'', ''<svg/>''),
                      (''/repo/rc/ok_disabled.png'', ''<svg/>''),
                      (''/repo/rc/ok_focus.png'', ''<svg/>''),
                      (''/repo/rc/ok_pressed.png'', ''<svg/>'')],
         num_svg = 3, num_png = 4, num_ignored = 0, num_rc_list = 0, rc_list = []\<rparr>)"
    by (simp add: create_images_def example_env_def dict_display_def process_template_def
          IMAGE_BLACKLIST_def get_file_color_map_def process_variant_def Let_def
          create_colored_svg_def os_path_join_def os_path_basename_def list_remove_def
          get_rc_links_from_scss_def default_pattern_def suffix_to_prefix)
  with st show ?thesis by simp
qed

text \<open>
  C3. The claim: a blacklisted template has no output file, and a single blacklisted
  template adds one, once, to the counter of ignored templates and nothing to the counter
  of files made. The code on the directory with the single template \<open>base_palette.svg\<close>:
  no file is written and \<open>num_png\<close> is 0, but \<open>num_ignored\<close> is 2 for the one template
  that \<open>num_svg\<close> counts. The increment stands inside the loop over the two sizes, and
  the run logs the counter as \<open># SVG ignored\<close> next to \<open># SVG files\<close>.
\<close>

theorem create_images_blacklisted_counted_twice:
  "create_images example_env [(''base_palette.svg'', ''<svg/>'')] [] =
     Inr \<lparr>temp_files = [], png_files = [], num_svg = 1, num_png = 0, num_ignored = 2,
          num_rc_list = 0, rc_list = []\<rparr>"
  by (simp add: create_images_def example_env_def dict_display_def process_template_def
        IMAGE_BLACKLIST_def Let_def get_rc_links_from_scss_def default_pattern_def
        suffix_to_prefix)

text \<open>
  The rest of the blacklist scenario holds of the code. In a run that completes, the files
  written and the counter \<open>num_png\<close> are those of the run on the listing without the
  blacklisted templates, eight files for each of the other templates.
\<close>

lemma create_images_blacklisted_no_output:
  assumes "\<forall>(f, d)\<in>set (svg_templates svg_dir). blacklisted f \<or> count_list f CHR ''.'' = 1"
  shows "\<exists>st st'. create_images env svg_dir scss = Inr st \<and>
            num_png st = 8 * length (filter (\<lambda>(f, d). \<not> blacklisted f) (svg_templates svg_dir)) \<and>
            length (png_files st) = num_png st \<and>
            create_images env (filter (\<lambda>(f, d). \<not> blacklisted f) svg_dir) scss = Inr st' \<and>
            png_files st' = png_files st \<and> temp_files st' = temp_files st \<and>
            num_png st' = num_png st"
proof -
  let ?keep = "\<lambda>(f, d). \<not> blacklisted f"
  let ?T = "svg_templates svg_dir"
  have wf': "\<forall>(f, d)\<in>set (svg_templates (filter ?keep svg_dir)).
               blacklisted f \<or> count_list f CHR ''.'' = 1"
    using assms by (auto simp: svg_templates_filter)
  have p: "concat (map (png_writes env h e) (filter ?keep ?T)) = concat (map (png_writes env h e) ?T)"
    for h e
    by (rule concat_map_filter_nonempty) (auto simp: writes_of_blacklisted)
  have t: "concat (map (temp_writes env) (filter ?keep ?T)) = concat (map (temp_writes env) ?T)"
    by (rule concat_map_filter_nonempty) (auto simp: writes_of_blacklisted)
  have l: "length (concat (map (png_writes env h e) xs)) = 4 * length (filter ?keep xs)"
    if "\<forall>(f, d)\<in>set xs. blacklisted f \<or> count_list f CHR ''.'' = 1" for h e xs
    using that
  proof (induction xs)
    case Nil
    show ?case by simp
  next
    case (Cons x xs)
    obtain f d where x: "x = (f, d)" by (cases x)
    show ?case
    proof (cases "blacklisted f")
      case True
      with Cons x show ?thesis by (simp add: writes_of_blacklisted)
    next
      case False
      with Cons.prems x have "count_list f CHR ''.'' = 1" by simp
      from variants_of_length [OF this, of "palette env"] False Cons x show ?thesis
        by (simp add: png_writes_def)
    qed
  qed
  have kk: "filter ?keep (filter ?keep ?T) = filter ?keep ?T"
    by simp
  show ?thesis
    unfolding create_images_completes [OF assms] create_images_completes [OF wf']
    by (simp add: svg_templates_filter p t l [OF assms] kk del: filter_filter)
qed

section \<open>Reconciliation\<close>

lemma foldl_remove1_distinct:
  "distinct xs \<Longrightarrow>
     distinct (foldl (\<lambda>l n. remove1 n l) xs ns) \<and>
     set (foldl (\<lambda>l n. remove1 n l) xs ns) = set xs - set ns"
  by (induction ns arbitrary: xs) auto

lemma os_path_basename_no_slash: "CHR ''/'' \<notin> set (os_path_basename p)"
proof
  assume "CHR ''/'' \<in> set (os_path_basename p)"
  then have "CHR ''/'' \<in> set (takeWhile (\<lambda>c. c \<noteq> CHR ''/'') (rev p))"
    by (simp add: os_path_basename_def)
  then show False by (auto dest: set_takeWhileD)
qed

lemma os_path_basename_plain:
  assumes "CHR ''/'' \<notin> set p"
  shows "os_path_basename p = p"
proof -
  from assms have "takeWhile (\<lambda>c. c \<noteq> CHR ''/'') (rev p) = rev p"
    by (intro takeWhile_eq_all_conv [THEN iffD2]) auto
  then have "rev (takeWhile (\<lambda>c. c \<noteq> CHR ''/'') (rev p)) = rev (rev p)"
    by (rule arg_cong)
  then show ?thesis
    unfolding os_path_basename_def by (simp only: rev_rev_ident)
qed

lemma os_path_join_plain:
  assumes "a \<noteq> []" "CHR ''/'' \<notin> set a" "CHR ''/'' \<notin> set b"
  shows "os_path_join a b = a @ ''/'' @ b"
proof -
  from assms(3) have "\<not> prefix ''/'' b" by (cases b) auto
  moreover from assms(1,2) have "\<not> suffix ''/'' a" by (auto simp: suffix_def)
  ultimately show ?thesis using assms(1) by (simp add: os_path_join_def)
qed

lemma rc_name_shape:
  assumes "os_path_basename rc \<noteq> []" "CHR ''/'' \<notin> set p"
  shows "rc_name rc p = ''/'' @ os_path_basename rc @ ''/'' @ p"
  using os_path_join_plain [OF assms(1) os_path_basename_no_slash assms(2)] assms(2)
  by (simp add: rc_name_def os_path_basename_plain)

lemma str_replace_chars: "set (str_replace old new s) \<subseteq> set s \<union> set new"
proof (induction old new s rule: str_replace.induct)
  case (1 old new)
  show ?case by auto
next
  case (2 old new c cs)
  show ?case
  proof (cases "old = []")
    case True
    with 2 show ?thesis by auto
  next
    case False
    show ?thesis
    proof (cases "prefix old (c # cs)")
      case True
      have "set (drop (length old) (c # cs)) \<subseteq> set (c # cs)" by (rule set_drop_subset)
      with 2(2) [OF False True] False True show ?thesis by auto
    next
      case no: False
      with 2(3) [OF False no] False show ?thesis by auto
    qed
  qed
qed

lemma variants_of_chars:
  assumes "(v, c) \<in> set (variants_of p f)"
  shows "set v \<subseteq> set f \<union> set ''_disabled_focus_pressed''"
proof (cases "count_list f CHR ''.'' = 1")
  case True
  from one_sep_split [OF True] obtain n x where s: "str_split CHR ''.'' f = [n, x]" by blast
  then have f: "f = n @ ''.'' @ x" by (simp add: str_split_two)
  from assms get_file_color_map_split [OF s, of p] show ?thesis
    unfolding f by (auto simp: variants_of_def)
next
  case False
  from get_file_color_map_error [OF False, of p] assms show ?thesis
    by (simp add: variants_of_def)
qed

lemma png_fnames_no_slash:
  assumes "CHR ''/'' \<notin> set f" "CHR ''/'' \<notin> set e" "q \<in> set (png_fnames p e f)"
  shows "CHR ''/'' \<notin> set q"
proof -
  from assms(3) obtain v c where vc: "(v, c) \<in> set (variants_of p f)"
    and q: "q = str_replace ''.svg'' e v"
    by (auto simp: png_fnames_def split: if_splits)
  from variants_of_chars [OF vc] assms(1) have "CHR ''/'' \<notin> set v" by auto
  with str_replace_chars [of "''.svg''" e v] assms(2) show ?thesis
    unfolding q by auto
qed

text \<open>
  C5. At the base size the name \<open>rc_name\<close> of each file made is removed from \<open>rc_list\<close>,
  the working list of links; when the name is not in the list the \<open>ValueError\<close> of
  \<open>remove\<close> is caught and the list stays as it is. With well-formed template names the
  run completes for every stylesheet, and the links that remain are those of the
  stylesheet that are the name of no file made at the base size. For an output directory
  with a non-empty base name and a file name without \<open>/\<close>, \<open>rc_name\<close> is
  \<open>/{base name of the directory}/{file name}\<close>.
\<close>

theorem create_images_reconciliation:
  assumes "\<forall>(f, d)\<in>set (svg_templates svg_dir). blacklisted f \<or> count_list f CHR ''.'' = 1"
  shows "(\<forall>ext data v c st. \<exists>st'.
            process_variant env 32 32 ext data (v, c) st = Inr st' \<and>
            rc_list st' = remove1 (rc_name (rc_path env) (str_replace ''.svg'' ext v)) (rc_list st) \<and>
            (rc_name (rc_path env) (str_replace ''.svg'' ext v) \<notin> set (rc_list st) \<longrightarrow>
               rc_list st' = rc_list st)) \<and>
         (\<exists>st. create_images env svg_dir scss = Inr st \<and>
            num_rc_list st = length (get_rc_links_from_scss default_pattern scss) \<and>
            distinct (rc_list st) \<and>
            set (rc_list st) =
              set (get_rc_links_from_scss default_pattern scss) -
              rc_name (rc_path env) `
                (\<Union>(f, d)\<in>set (svg_templates svg_dir). set (png_fnames (palette env) ''.png'' f))) \<and>
         (os_path_basename (rc_path env) \<noteq> [] \<longrightarrow>
            (\<forall>(f, d)\<in>set (svg_templates svg_dir). CHR ''/'' \<notin> set f \<longrightarrow>
               (\<forall>p\<in>set (png_fnames (palette env) ''.png'' f).
                  rc_name (rc_path env) p = ''/'' @ os_path_basename (rc_path env) @ ''/'' @ p)))"
proof (intro conjI allI impI)
  fix ext data v c st
  show "\<exists>st'. process_variant env 32 32 ext data (v, c) st = Inr st' \<and>
            rc_list st' = remove1 (rc_name (rc_path env) (str_replace ''.svg'' ext v)) (rc_list st) \<and>
            (rc_name (rc_path env) (str_replace ''.svg'' ext v) \<notin> set (rc_list st) \<longrightarrow>
               rc_list st' = rc_list st)"
    by (simp add: process_variant_advance remove1_idem)
next
  have d: "distinct (get_rc_links_from_scss default_pattern scss)"
    by (simp add: get_rc_links_from_scss_def)
  have u: "set (concat (map (\<lambda>(f, d). png_fnames (palette env) ''.png'' f) xs)) =
             (\<Union>(f, d)\<in>set xs. set (png_fnames (palette env) ''.png'' f))" for xs
    by auto
  show "\<exists>st. create_images env svg_dir scss = Inr st \<and>
            num_rc_list st = length (get_rc_links_from_scss default_pattern scss) \<and>
            distinct (rc_list st) \<and>
            set (rc_list st) =
              set (get_rc_links_from_scss default_pattern scss) -
              rc_name (rc_path env) `
                (\<Union>(f, d)\<in>set (svg_templates svg_dir). set (png_fnames (palette env) ''.png'' f))"
    unfolding create_images_completes [OF assms]
    using foldl_remove1_distinct [OF d] by (simp add: u del: set_concat)
next
  assume b: "os_path_basename (rc_path env) \<noteq> []"
  show "\<forall>(f, d)\<in>set (svg_templates svg_dir). CHR ''/'' \<notin> set f \<longrightarrow>
          (\<forall>p\<in>set (png_fnames (palette env) ''.png'' f).
             rc_name (rc_path env) p = ''/'' @ os_path_basename (rc_path env) @ ''/'' @ p)"
  proof (intro ballI, clarify)
    fix f d p
    assume "CHR ''/'' \<notin> set f" "p \<in> set (png_fnames (palette env) ''.png'' f)"
    then have "CHR ''/'' \<notin> set p" using png_fnames_no_slash [of f "''.png''" p] by simp
    with b show "rc_name (rc_path env) p = ''/'' @ os_path_basename (rc_path env) @ ''/'' @ p"
      by (rule rc_name_shape)
  qed
qed

theorem create_images_reconciliation_witness:
  "\<exists>st. create_images example_env [(''icon.svg'', ''<svg fill=#ff0000/>'')]
          ''a: url(/rc/icon.png);\<newline>b: url(/rc/icon_hover.png);'' = Inr st \<and>
        num_rc_list st = 2 \<and> set (rc_list st) = {''/rc/icon_hover.png''}"
proof -
  let ?dir = "[(''icon.svg'', ''<svg fill=#ff0000/>'')]"
  let ?scss = "''a: url(/rc/icon.png);\<newline>b: url(/rc/icon_hover.png);''"
  let ?names = "[''icon.png'', ''icon_disabled.png'', ''icon_focus.png'', ''icon_pressed.png'']"
  have t: "svg_templates ?dir = ?dir"
    by (simp add: svg_templates_def suffix_to_prefix)
  have b: "\<not> blacklisted ''icon.svg''"
    by (simp add: blacklisted_def IMAGE_BLACKLIST_def)
  have wf: "\<forall>(f, d)\<in>set (svg_templates ?dir). blacklisted f \<or> count_list f CHR ''.'' = 1"
    unfolding t by simp
  have l: "get_rc_links_from_scss default_pattern ?scss = [''/rc/icon.png'', ''/rc/icon_hover.png'']"
    by (simp add: get_rc_links_from_scss_def default_pattern_def)
  have n: "png_fnames (palette example_env) ''.png'' ''icon.svg'' = ?names"
    using b by (simp add: png_fnames_def variants_of_def get_file_color_map_def dict_display_def)
  have r: "map (rc_name (rc_path example_env)) ?names =
             [''/rc/icon.png'', ''/rc/icon_disabled.png'', ''/rc/icon_focus.png'',
              ''/rc/icon_pressed.png'']"
    by (simp add: rc_name_def example_env_def os_path_basename_def os_path_join_def
          suffix_to_prefix)
  have u: "(\<Union>(f, d)\<in>set ?dir. set (png_fnames (palette example_env) ''.png'' f)) = set ?names"
    unfolding n [symmetric] by simp
  have i: "rc_name (rc_path example_env) ` set ?names =
             set [''/rc/icon.png'', ''/rc/icon_disabled.png'', ''/rc/icon_focus.png'',
                  ''/rc/icon_pressed.png'']"
    unfolding r [symmetric] by (rule image_set)
  have d: "set [''/rc/icon.png'', ''/rc/icon_hover.png''] -
           set [''/rc/icon.png'', ''/rc/icon_disabled.png'', ''/rc/icon_focus.png'',
                ''/rc/icon_pressed.png''] = {''/rc/icon_hover.png''}"
    by simp
  have "\<exists>st. create_images example_env ?dir ?scss = Inr st \<and>
          num_rc_list st = length (get_rc_links_from_scss default_pattern ?scss) \<and>
          distinct (rc_list st) \<and>
          set (rc_list st) =
            set (get_rc_links_from_scss default_pattern ?scss) -
            rc_name (rc_path example_env) `
              (\<Union>(f, d)\<in>set (svg_templates ?dir).
                  set (png_fnames (palette example_env) ''.png'' f))"
    by (rule create_images_reconciliation [OF wf, of example_env ?scss,
          THEN conjunct2, THEN conjunct1])
  then obtain st where st: "create_images example_env ?dir ?scss = Inr st"
    "num_rc_list st = length (get_rc_links_from_scss default_pattern ?scss)"
    "set (rc_list st) =
       set (get_rc_links_from_scss default_pattern ?scss) -
       rc_name (rc_path example_env) `
         (\<Union>(f, d)\<in>set (svg_templates ?dir).
             set (png_fnames (palette example_env) ''.png'' f))"
    by (elim exE conjE) (rule that)
  from st(3) have s: "set (rc_list st) = {''/rc/icon_hover.png''}"
    unfolding t l u i d .
  from st(2) have c: "num_rc_list st = 2" unfolding l by simp
  from st(1) c s show ?thesis by (intro exI [of _ st] conjI)
qed

section \<open>Names of the files made\<close>

lemma svg_name_shape:
  assumes "suffix ''.svg'' f" "count_list f CHR ''.'' = 1"
  shows "\<exists>n. f = n @ ''.svg'' \<and> CHR ''.'' \<notin> set n"
proof -
  from assms(1) obtain n where f: "f = n @ ''.svg''" by (auto simp: suffix_def)
  with assms(2) have "count_list n CHR ''.'' = 0" by simp
  then have "CHR ''.'' \<notin> set n" by (simp add: count_list_0_iff)
  with f show ?thesis by blast
qed

lemma str_replace_svg:
  assumes "CHR ''.'' \<notin> set u"
  shows "str_replace ''.svg'' e (u @ ''.svg'') = u @ e"
proof -
  have "\<not> sublist ''.svg'' u"
  proof
    assume "sublist ''.svg'' u"
    then have "set ''.svg'' \<subseteq> set u" by (rule set_mono_sublist)
    with assms show False by simp
  qed
  from str_replace_first [of "''.svg''" "CHR ''.''" "''svg''" u e "[]", OF _ _ this]
  show ?thesis by simp
qed

lemma png_fnames_good:
  assumes "\<not> blacklisted (n @ ''.svg'')" "CHR ''.'' \<notin> set n"
  shows "png_fnames p e (n @ ''.svg'') =
           [n @ e, n @ ''_disabled'' @ e, n @ ''_focus'' @ e, n @ ''_pressed'' @ e]"
proof -
  have s: "str_split CHR ''.'' (n @ ''.svg'') = [n, ''svg'']"
    using assms(2) by (simp add: str_split_two)
  have r: "str_replace ''.svg'' e (n @ x @ ''.svg'') = n @ x @ e" if "CHR ''.'' \<notin> set x" for x
    using str_replace_svg [of "n @ x" e] assms(2) that by simp
  from get_file_color_map_split [OF s, of p] assms(1) show ?thesis
    using r [of "[]"] r [of "''_disabled''"] r [of "''_focus''"] r [of "''_pressed''"]
    by (simp add: png_fnames_def variants_of_def)
qed

lemma png_writes_names:
  "map fst (png_writes env h e (f, d)) =
     map (os_path_join (rc_path env)) (png_fnames (palette env) e f)"
  by (simp add: png_writes_def png_fnames_def split_def comp_def)

lemma png_writes_names_concat:
  "map fst (concat (map (png_writes env h e) xs)) =
     map (os_path_join (rc_path env)) (concat (map (\<lambda>(f, d). png_fnames (palette env) e f) xs))"
  by (induction xs) (auto simp: png_writes_names map_concat)

lemma append_suffix_split:
  assumes "us @ t1 = t2"
  shows "us = take (length t2 - length t1) t2 \<and> t1 = drop (length t2 - length t1) t2"
  using assms by auto

lemma derived_suffix_table:
  "\<forall>t1\<in>set ([] # derived_suffixes). \<forall>t2\<in>set ([] # derived_suffixes).
     suffix t1 t2 \<longrightarrow>
       (take (length t2 - length t1) t2 = [] \<and> t1 = t2) \<or>
       take (length t2 - length t1) t2 \<in> set derived_suffixes"
  by (simp add: derived_suffixes_def suffix_to_prefix)

lemma derived_suffix:
  assumes "t1 \<in> set ([] # derived_suffixes)" "t2 \<in> set ([] # derived_suffixes)"
    and "us @ t1 = t2"
  shows "(us = [] \<and> t1 = t2) \<or> us \<in> set derived_suffixes"
proof -
  from append_suffix_split [OF assms(3)]
  have u: "us = take (length t2 - length t1) t2" by simp
  from assms(3) have "suffix t1 t2" by (auto simp: suffix_def)
  from derived_suffix_table [rule_format, OF assms(1,2) this] show ?thesis
    unfolding u [symmetric] .
qed

lemma no_collision:
  assumes h: "\<forall>n\<in>N. \<forall>m\<in>N. \<forall>t\<in>set derived_suffixes. n \<noteq> m @ t"
    and "n1 \<in> N" "n2 \<in> N"
    and "t1 \<in> set ([] # derived_suffixes)" "t2 \<in> set ([] # derived_suffixes)"
    and e: "n1 @ t1 = n2 @ t2"
  shows "n1 = n2 \<and> t1 = t2"
proof -
  from e obtain us where "(n1 = n2 @ us \<and> us @ t1 = t2) \<or> (n1 @ us = n2 \<and> t1 = us @ t2)"
    by (auto simp: append_eq_append_conv2)
  then show ?thesis
  proof
    assume a: "n1 = n2 @ us \<and> us @ t1 = t2"
    with derived_suffix [OF assms(4,5), of us]
    have "(us = [] \<and> t1 = t2) \<or> us \<in> set derived_suffixes" by simp
    with a h assms(2,3) show ?thesis by auto
  next
    assume a: "n1 @ us = n2 \<and> t1 = us @ t2"
    with derived_suffix [OF assms(5,4), of us]
    have "(us = [] \<and> t2 = t1) \<or> us \<in> set derived_suffixes" by simp
    with a h assms(2,3) show ?thesis by auto
  qed
qed

lemma concat_map_product:
  "concat (map (\<lambda>x. map (h x) ys) xs) = map (\<lambda>(x, y). h x y) (List.product xs ys)"
  by (induction xs) (simp_all add: comp_def)

lemma os_path_join_inj:
  assumes "\<not> prefix ''/'' p" "\<not> prefix ''/'' q" "os_path_join a p = os_path_join a q"
  shows "p = q"
  using assms by (simp add: os_path_join_def split: if_splits)

lemma state_suffix_table:
  "\<forall>s\<in>set [[], ''_disabled'', ''_focus'', ''_pressed''].
     s \<in> set ([] # derived_suffixes) \<and> s @ ''@2x'' \<in> set ([] # derived_suffixes) \<and>
     \<not> suffix ''@2x'' s \<and> CHR ''/'' \<notin> set s"
  by (simp add: derived_suffixes_def suffix_to_prefix)

lemma names_product:
  assumes "\<forall>(f, d)\<in>set xs. suffix ''.svg'' f \<and> count_list f CHR ''.'' = 1"
  shows "concat (map (\<lambda>(f, d). png_fnames p e f) xs) =
           map (\<lambda>(n, s). n @ s @ e)
             (List.product
                (map (\<lambda>(f, d). take (length f - 4) f) (filter (\<lambda>(f, d). \<not> blacklisted f) xs))
                [[], ''_disabled'', ''_focus'', ''_pressed''])"
  using assms
proof (induction xs)
  case Nil
  show ?case by simp
next
  case (Cons x xs)
  obtain f d where x: "x = (f, d)" by (cases x)
  from Cons.prems have rest: "\<forall>(f, d)\<in>set xs. suffix ''.svg'' f \<and> count_list f CHR ''.'' = 1"
    by simp
  show ?case
  proof (cases "blacklisted f")
    case True
    with Cons.IH [OF rest] x show ?thesis by (simp add: writes_of_blacklisted)
  next
    case False
    from Cons.prems x have "suffix ''.svg'' f" "count_list f CHR ''.'' = 1" by simp_all
    from svg_name_shape [OF this] obtain n where f: "f = n @ ''.svg''" and n: "CHR ''.'' \<notin> set n"
      by blast
    from False f have nb: "\<not> blacklisted (n @ ''.svg'')" by simp
    have b: "take (length f - 4) f = n" unfolding f by simp
    show ?thesis
      unfolding x using False Cons.IH [OF rest] b
      by (simp add: f png_fnames_good [OF nb n])
  qed
qed

lemma name_equal_cases:
  assumes h: "\<forall>n\<in>N. \<forall>m\<in>N. \<forall>t\<in>set derived_suffixes. n \<noteq> m @ t"
    and n: "n1 \<in> N" "n2 \<in> N"
    and s: "s1 \<in> set [[], ''_disabled'', ''_focus'', ''_pressed'']"
           "s2 \<in> set [[], ''_disabled'', ''_focus'', ''_pressed'']"
  shows "n1 @ s1 @ ''.png'' = n2 @ s2 @ ''.png'' \<Longrightarrow> n1 = n2 \<and> s1 = s2"
    and "n1 @ s1 @ ''@2x.png'' = n2 @ s2 @ ''@2x.png'' \<Longrightarrow> n1 = n2 \<and> s1 = s2"
    and "n1 @ s1 @ ''.png'' \<noteq> n2 @ s2 @ ''@2x.png''"
proof -
  note t1 = state_suffix_table [rule_format, OF s(1)]
  note t2 = state_suffix_table [rule_format, OF s(2)]
  {
    assume "n1 @ s1 @ ''.png'' = n2 @ s2 @ ''.png''"
    then have "(n1 @ s1) @ ''.png'' = (n2 @ s2) @ ''.png''" by simp
    then have "n1 @ s1 = n2 @ s2" by (simp only: append_same_eq)
    from no_collision [OF h n _ _ this] t1 t2 show "n1 = n2 \<and> s1 = s2" by blast
  }
  {
    assume "n1 @ s1 @ ''@2x.png'' = n2 @ s2 @ ''@2x.png''"
    then have "(n1 @ s1) @ ''@2x.png'' = (n2 @ s2) @ ''@2x.png''" by simp
    then have "n1 @ s1 = n2 @ s2" by (simp only: append_same_eq)
    from no_collision [OF h n _ _ this] t1 t2 show "n1 = n2 \<and> s1 = s2" by blast
  }
  show "n1 @ s1 @ ''.png'' \<noteq> n2 @ s2 @ ''@2x.png''"
  proof
    assume "n1 @ s1 @ ''.png'' = n2 @ s2 @ ''@2x.png''"
    then have "(n1 @ s1) @ ''.png'' = (n2 @ s2 @ ''@2x'') @ ''.png''" by simp
    then have "n1 @ s1 = n2 @ (s2 @ ''@2x'')" by (simp only: append_same_eq)
    from no_collision [OF h n _ _ this] t1 t2 have "s1 = s2 @ ''@2x''" by blast
    then have "suffix ''@2x'' s1" by (simp add: suffix_def)
    with t1 show False by blast
  qed
qed

lemma distinct_names:
  assumes d: "distinct N"
    and h: "\<forall>n\<in>set N. \<forall>m\<in>set N. \<forall>t\<in>set derived_suffixes. n \<noteq> m @ t"
    and sl: "\<forall>n\<in>set N. CHR ''/'' \<notin> set n"
  shows "distinct (map (os_path_join rc)
           (map (\<lambda>(n, s). n @ s @ ''.png'')
              (List.product N [[], ''_disabled'', ''_focus'', ''_pressed'']) @
            map (\<lambda>(n, s). n @ s @ ''@2x.png'')
              (List.product N [[], ''_disabled'', ''_focus'', ''_pressed''])))"
proof -
  let ?S = "[[], ''_disabled'', ''_focus'', ''_pressed'']"
  let ?P = "List.product N ?S"
  let ?F1 = "\<lambda>(n, s). n @ s @ ''.png''"
  let ?F2 = "\<lambda>(n, s). n @ s @ ''@2x.png''"
  have dS: "distinct ?S" by simp
  have dP: "distinct ?P" using d dS by (rule distinct_product)
  have mem: "n \<in> set N \<and> s \<in> set ?S" if "(n, s) \<in> set ?P" for n s
    using that by (simp del: list.set set_simps)
  have i1: "inj_on ?F1 (set ?P)"
  proof (rule inj_onI)
    fix x y assume x: "x \<in> set ?P" and y: "y \<in> set ?P" and e: "?F1 x = ?F1 y"
    obtain n1 s1 where x': "x = (n1, s1)" by (cases x)
    obtain n2 s2 where y': "y = (n2, s2)" by (cases y)
    from x x' mem have m1: "n1 \<in> set N" "s1 \<in> set ?S" by blast+
    from y y' mem have m2: "n2 \<in> set N" "s2 \<in> set ?S" by blast+
    from e x' y' have "n1 @ s1 @ ''.png'' = n2 @ s2 @ ''.png''" by simp
    from name_equal_cases(1) [OF h m1(1) m2(1) m1(2) m2(2) this] x' y' show "x = y" by simp
  qed
  have i2: "inj_on ?F2 (set ?P)"
  proof (rule inj_onI)
    fix x y assume x: "x \<in> set ?P" and y: "y \<in> set ?P" and e: "?F2 x = ?F2 y"
    obtain n1 s1 where x': "x = (n1, s1)" by (cases x)
    obtain n2 s2 where y': "y = (n2, s2)" by (cases y)
    from x x' mem have m1: "n1 \<in> set N" "s1 \<in> set ?S" by blast+
    from y y' mem have m2: "n2 \<in> set N" "s2 \<in> set ?S" by blast+
    from e x' y' have "n1 @ s1 @ ''@2x.png'' = n2 @ s2 @ ''@2x.png''" by simp
    from name_equal_cases(2) [OF h m1(1) m2(1) m1(2) m2(2) this] x' y' show "x = y" by simp
  qed
  have dis: "set (map ?F1 ?P) \<inter> set (map ?F2 ?P) = {}"
  proof (rule ccontr)
    assume "set (map ?F1 ?P) \<inter> set (map ?F2 ?P) \<noteq> {}"
    then obtain x y where x: "x \<in> set ?P" and y: "y \<in> set ?P" and e: "?F1 x = ?F2 y"
      by (auto simp del: list.set set_simps)
    obtain n1 s1 where x': "x = (n1, s1)" by (cases x)
    obtain n2 s2 where y': "y = (n2, s2)" by (cases y)
    from x x' mem have m1: "n1 \<in> set N" "s1 \<in> set ?S" by blast+
    from y y' mem have m2: "n2 \<in> set N" "s2 \<in> set ?S" by blast+
    from e x' y' have "n1 @ s1 @ ''.png'' = n2 @ s2 @ ''@2x.png''" by simp
    with name_equal_cases(3) [OF h m1(1) m2(1) m1(2) m2(2)] show False by simp
  qed
  have dL: "distinct (map ?F1 ?P @ map ?F2 ?P)"
    using dP i1 i2 dis by (simp add: distinct_map del: list.set set_simps)
  have ns: "\<not> prefix ''/'' q" if "q \<in> set (map ?F1 ?P @ map ?F2 ?P)" for q
  proof -
    from that obtain n s e where q: "q = n @ s @ e" and m: "(n, s) \<in> set ?P"
      and e: "e = ''.png'' \<or> e = ''@2x.png''"
      by (auto simp del: list.set set_simps)
    from mem [OF m] have n: "n \<in> set N" and s: "s \<in> set ?S" by simp_all
    from sl n have "CHR ''/'' \<notin> set n" by blast
    moreover from state_suffix_table [rule_format, OF s] have "CHR ''/'' \<notin> set s" by blast
    moreover from e have "CHR ''/'' \<notin> set e" by auto
    ultimately have "CHR ''/'' \<notin> set q" unfolding q by simp
    then show ?thesis by (cases q) auto
  qed
  have "inj_on (os_path_join rc) (set (map ?F1 ?P @ map ?F2 ?P))"
    by (rule inj_onI) (blast intro: os_path_join_inj dest: ns)
  with dL show ?thesis by (simp only: distinct_map simp_thms)
qed

text \<open>
  C9, as the claim states it: distinct template names with one \<open>'.'\<close> each give
  distinct output names. The templates \<open>a.svg\<close> and \<open>a_focus.svg\<close> are such names; the
  \<open>_focus\<close> variant of the first and the base variant of the second are both written to
  \<open>a_focus.png\<close>.
\<close>

theorem create_images_output_names_collide:
  "distinct [''a.svg'', ''a_focus.svg''] \<and>
   count_list ''a.svg'' CHR ''.'' = 1 \<and> count_list ''a_focus.svg'' CHR ''.'' = 1 \<and>
   \<not> isl (create_images example_env [(''a.svg'', ''<svg/>''), (''a_focus.svg'', ''<svg/>'')] []) \<and>
   \<not> distinct (map fst (png_files (projr
         (create_images example_env [(''a.svg'', ''<svg/>''), (''a_focus.svg'', ''<svg/>'')] []))))"
proof -
  let ?dir = "[(''a.svg'', ''<svg/>''), (''a_focus.svg'', ''<svg/>'')]"
  have t: "svg_templates ?dir = ?dir"
    by (simp add: svg_templates_def suffix_to_prefix)
  have b: "\<not> blacklisted ''a.svg''" "\<not> blacklisted ''a_focus.svg''"
    by (simp_all add: blacklisted_def IMAGE_BLACKLIST_def)
  have wf: "\<forall>(f, d)\<in>set (svg_templates ?dir). blacklisted f \<or> count_list f CHR ''.'' = 1"
    unfolding t by simp
  have n: "png_fnames (palette example_env) ''.png'' ''a.svg'' =
             [''a.png'', ''a_disabled.png'', ''a_focus.png'', ''a_pressed.png'']"
    using png_fnames_good [of "''a''" "palette example_env" "''.png''"] b by simp
  have m: "png_fnames (palette example_env) ''.png'' ''a_focus.svg'' =
             [''a_focus.png'', ''a_focus_disabled.png'', ''a_focus_focus.png'',
              ''a_focus_pressed.png'']"
    using png_fnames_good [of "''a_focus''" "palette example_env" "''.png''"] b by simp
  have nd: "\<not> distinct (map fst (concat (map (png_writes example_env 32 ''.png'') ?dir)))"
    unfolding png_writes_names_concat by (simp add: n m distinct_map)
  have pf: "png_files (projr (create_images example_env ?dir [])) =
              concat (map (png_writes example_env 32 ''.png'') ?dir) @
              concat (map (png_writes example_env 64 ''@2x.png'') ?dir)"
    unfolding create_images_completes [OF wf] t by simp
  have "\<not> distinct (map fst (png_files (projr (create_images example_env ?dir []))))"
  proof
    assume "distinct (map fst (png_files (projr (create_images example_env ?dir []))))"
    then have "distinct (map fst (concat (map (png_writes example_env 32 ''.png'') ?dir)))"
      unfolding pf by (simp only: map_append distinct_append)
    with nd show False by contradiction
  qed
  moreover have "\<not> isl (create_images example_env ?dir [])"
    unfolding create_images_completes [OF wf] by simp
  ultimately show ?thesis by simp
qed

text \<open>
  C9, amended. The templates are the entries of a directory (distinct names without
  \<open>/\<close>) that end in \<open>.svg\<close>, each with exactly one \<open>'.'\<close>. If no processed template's
  name is the base name of a processed template followed by a state suffix, by \<open>@2x\<close>,
  or by a state suffix and \<open>@2x\<close>, the run completes and the paths of the files it
  writes to \<open>rc_path\<close>, over all variants, templates and both sizes, are pairwise
  distinct.
\<close>

theorem create_images_output_names_distinct:
  assumes a1: "distinct (map fst svg_dir)"
    and a2: "\<forall>(f, d)\<in>set (svg_templates svg_dir). count_list f CHR ''.'' = 1"
    and a3: "\<forall>(f, d)\<in>set (svg_templates svg_dir). CHR ''/'' \<notin> set f"
    and a4: "\<forall>(f, d)\<in>set (svg_templates svg_dir). \<forall>(g, d')\<in>set (svg_templates svg_dir).
               \<not> blacklisted f \<longrightarrow> \<not> blacklisted g \<longrightarrow>
               (\<forall>t\<in>set derived_suffixes. f \<noteq> take (length g - 4) g @ t @ ''.svg'')"
  shows "\<exists>st. create_images env svg_dir scss = Inr st \<and> distinct (map fst (png_files st))"
proof -
  let ?T = "svg_templates svg_dir"
  let ?good = "filter (\<lambda>(f, d). \<not> blacklisted f) ?T"
  let ?base = "\<lambda>f::string. take (length f - 4) f"
  let ?N = "map (\<lambda>(f, d). take (length f - 4) f) ?good"
  have sv: "\<forall>(f, d)\<in>set ?T. suffix ''.svg'' f \<and> count_list f CHR ''.'' = 1"
    using a2 by (auto simp: svg_templates_def)
  have wf: "\<forall>(f, d)\<in>set ?T. blacklisted f \<or> count_list f CHR ''.'' = 1"
    using a2 by auto
  have shape: "f = ?base f @ ''.svg''" if "(f, d) \<in> set ?T" for f d
  proof -
    from that sv have "suffix ''.svg'' f" by auto
    then obtain n where "f = n @ ''.svg''" by (auto simp: suffix_def)
    then show ?thesis by simp
  qed
  have N: "?N = map ?base (map fst ?good)"
    by (simp add: comp_def split_def)
  have "distinct (map fst ?T)"
    unfolding svg_templates_def using a1 by (rule distinct_map_filter)
  then have dg: "distinct (map fst ?good)" by (rule distinct_map_filter)
  have "inj_on ?base (set (map fst ?good))"
  proof (rule inj_onI)
    fix f g assume f: "f \<in> set (map fst ?good)" and g: "g \<in> set (map fst ?good)"
      and e: "?base f = ?base g"
    from f obtain d where "(f, d) \<in> set ?T" by auto
    from shape [OF this] have f': "f = ?base f @ ''.svg''" .
    from g obtain d' where "(g, d') \<in> set ?T" by auto
    from shape [OF this] have g': "g = ?base g @ ''.svg''" .
    from f' g' e show "f = g" by metis
  qed
  with dg have dN: "distinct ?N" unfolding N by (simp only: distinct_map simp_thms)
  have hN: "\<forall>n\<in>set ?N. \<forall>m\<in>set ?N. \<forall>t\<in>set derived_suffixes. n \<noteq> m @ t"
  proof (intro ballI notI)
    fix n m t assume n: "n \<in> set ?N" and m: "m \<in> set ?N" and t: "t \<in> set derived_suffixes"
      and e: "n = m @ t"
    from n obtain f d where f: "(f, d) \<in> set ?T" "\<not> blacklisted f" "n = ?base f" by auto
    from m obtain g d' where g: "(g, d') \<in> set ?T" "\<not> blacklisted g" "m = ?base g" by auto
    from f(3) e g(3) have "?base f = ?base g @ t" by simp
    with shape [OF f(1)] have "f = ?base g @ t @ ''.svg''" by (metis append_assoc)
    moreover from a4 f(1,2) g(1,2) t have "f \<noteq> ?base g @ t @ ''.svg''" by blast
    ultimately show False by contradiction
  qed
  have sN: "\<forall>n\<in>set ?N. CHR ''/'' \<notin> set n"
  proof
    fix n assume "n \<in> set ?N"
    then obtain f d where f: "(f, d) \<in> set ?T" "n = ?base f" by auto
    with a3 have "CHR ''/'' \<notin> set f" by blast
    with f(2) show "CHR ''/'' \<notin> set n" by (auto dest: in_set_takeD)
  qed
  have "distinct (map fst (concat (map (png_writes env 32 ''.png'') ?T) @
                          concat (map (png_writes env 64 ''@2x.png'') ?T)))"
    using distinct_names [OF dN hN sN, of "rc_path env"]
    by (simp only: map_append png_writes_names_concat names_product [OF sv])
  then show ?thesis
    unfolding create_images_completes [OF wf] by simp
qed

theorem create_images_output_names_distinct_witness:
  "\<exists>st. create_images example_env
          [(''icon.svg'', ''<svg/>''), (''base_palette.svg'', ''<svg/>''), (''notes.txt'', [])] []
          = Inr st \<and>
        distinct (map fst (png_files st)) \<and> length (png_files st) = 8"
proof -
  let ?dir = "[(''icon.svg'', ''<svg/>''), (''base_palette.svg'', ''<svg/>''), (''notes.txt'', [])]"
  have t: "svg_templates ?dir = [(''icon.svg'', ''<svg/>''), (''base_palette.svg'', ''<svg/>'')]"
    by (simp add: svg_templates_def suffix_to_prefix)
  have b: "\<not> blacklisted ''icon.svg''" "blacklisted ''base_palette.svg''"
    by (simp_all add: blacklisted_def IMAGE_BLACKLIST_def)
  have a1: "distinct (map fst ?dir)" by simp
  have a2: "\<forall>(f, d)\<in>set (svg_templates ?dir). count_list f CHR ''.'' = 1"
    unfolding t by simp
  have a3: "\<forall>(f, d)\<in>set (svg_templates ?dir). CHR ''/'' \<notin> set f"
    unfolding t by simp
  have a4: "\<forall>(f, d)\<in>set (svg_templates ?dir). \<forall>(g, d')\<in>set (svg_templates ?dir).
               \<not> blacklisted f \<longrightarrow> \<not> blacklisted g \<longrightarrow>
               (\<forall>t\<in>set derived_suffixes. f \<noteq> take (length g - 4) g @ t @ ''.svg'')"
    unfolding t using b by (simp add: derived_suffixes_def)
  from create_images_output_names_distinct [OF a1 a2 a3 a4, of example_env "[]"]
  obtain st where st: "create_images example_env ?dir [] = Inr st"
    "distinct (map fst (png_files st))"
    by (elim exE conjE) (rule that)
  have wf: "\<forall>(f, d)\<in>set (svg_templates ?dir). blacklisted f \<or> count_list f CHR ''.'' = 1"
    unfolding t by simp
  from st(1) have "length (png_files st) = 8"
    unfolding create_images_completes [OF wf] t using b
    by (auto simp: png_writes_def variants_of_length)
  with st show ?thesis by (intro exI [of _ st] conjI)
qed

end
